theory Spec2Isabelle
  imports Complex_Main
begin

chapter \<open>souls-save-backup: a shallow embedding of main.py\<close>

text \<open>
  The program reads a configuration and a state file, walks the configured save
  directories, copies every new or modified \<open>.sl2\<close> file into a timestamped backup
  directory and writes the state file back. Its functions are embedded as HOL
  functions: the service object and everything the program leaves behind (state file,
  log, toasts, directories, copies) form a record that is passed along; the calls into
  the operating system and the libraries are parameters, collected in a record of
  their results; an exception is the left summand of the result.
\<close>

section \<open>The filename sanitizer (make_safe_filename)\<close>

text \<open>
  Python strings are modelled as \<open>string\<close>: a character stands for one code point below
  256. Step 2 of the sanitizer keeps members of \<open>string.printable\<close> only, all of them
  ASCII, so a code point above 255 is dropped exactly as the characters 128 to 255 are.
\<close>

text \<open>The character class of step 1: \<^verbatim>\<open>[<>:"/\\|?*]\<close>.\<close>

definition forbidden_chars :: "char list" where
  "forbidden_chars =
     [CHR ''<'', CHR ''>'', CHR '':'', CHR 0x22, CHR ''/'', CHR 0x5C, CHR ''|'', CHR ''?'', CHR ''*'']"

text \<open>
  Python's \<open>string.printable\<close>: digits, ascii_letters, punctuation and whitespace, in this
  order. The whitespace part is space, tab, newline, carriage return, vertical tab and
  form feed.
\<close>

definition string_digits :: "char list" where
  "string_digits = ''0123456789''"

definition string_ascii_letters :: "char list" where
  "string_ascii_letters = ''abcdefghijklmnopqrstuvwxyzABCDEFGHIJKLMNOPQRSTUVWXYZ''"

definition string_punctuation :: "char list" where
  "string_punctuation =
     [CHR ''!'', CHR 0x22, CHR ''#'', CHR ''$'', CHR ''%'', CHR ''&'', CHR 0x27, CHR ''('',
      CHR '')'', CHR ''*'', CHR ''+'', CHR '','', CHR ''-'', CHR ''.'', CHR ''/'', CHR '':'',
      CHR '';'', CHR ''<'', CHR ''='', CHR ''>'', CHR ''?'', CHR ''@'', CHR ''['', CHR 0x5C,
      CHR '']'', CHR ''^'', CHR ''_'', CHR 0x60, CHR ''{'', CHR ''|'', CHR ''}'', CHR ''~'']"

definition string_whitespace :: "char list" where
  "string_whitespace = [CHR '' '', CHR 0x09, CHR 0x0A, CHR 0x0D, CHR 0x0B, CHR 0x0C]"

definition string_printable :: "char list" where
  "string_printable =
     string_digits @ string_ascii_letters @ string_punctuation @ string_whitespace"

text \<open>\<open>s.strip(chars)\<close>: drop the leading and the trailing characters that are in \<open>chars\<close>.\<close>

definition strip :: "char list \<Rightarrow> string \<Rightarrow> string" where
  "strip chars s =
     rev (dropWhile (\<lambda>c. c \<in> set chars) (rev (dropWhile (\<lambda>c. c \<in> set chars) s)))"

text \<open>\<open>s.split('.')[0]\<close>: what stands before the first period (all of \<open>s\<close> without one).\<close>

definition split_first :: "char \<Rightarrow> string \<Rightarrow> string" where
  "split_first sep s = takeWhile (\<lambda>c. c \<noteq> sep) s"

text \<open>
  \<open>str.upper\<close> on the characters that survive step 2: of the members of
  \<open>string.printable\<close> only the letters a to z change.
\<close>

definition upper_char :: "char \<Rightarrow> char" where
  "upper_char c =
     (let n = (of_char c :: nat)
      in if of_char (CHR ''a'') \<le> n \<and> n \<le> of_char (CHR ''z'') then char_of (n - 32) else c)"

definition upper :: "string \<Rightarrow> string" where
  "upper s = map upper_char s"

definition reserved_names :: "string list" where
  "reserved_names =
     [''CON'', ''PRN'', ''AUX'', ''NUL'',
      ''COM1'', ''COM2'', ''COM3'', ''COM4'', ''COM5'', ''COM6'', ''COM7'', ''COM8'', ''COM9'',
      ''LPT1'', ''LPT2'', ''LPT3'', ''LPT4'', ''LPT5'', ''LPT6'', ''LPT7'', ''LPT8'', ''LPT9'']"

definition make_safe_filename :: "string \<Rightarrow> string" where
  "make_safe_filename filename =
     (let safe_name1 = filter (\<lambda>c. c \<notin> set forbidden_chars) filename;
          safe_name2 = filter (\<lambda>c. c \<in> set string_printable) safe_name1;
          safe_name3 = strip ''. '' safe_name2;
          name_without_ext = upper (split_first (CHR ''.'') safe_name3);
          safe_name4 = (if name_without_ext \<in> set reserved_names
                        then CHR ''_'' # safe_name3 else safe_name3);
          safe_name5 = (if safe_name4 = [] then ''_empty_'' else safe_name4)
      in take 255 safe_name5)"

section \<open>Values, exceptions and the outside world\<close>

text \<open>What \<open>json.load\<close> returns. An object is the list of its items, each key once.\<close>

datatype json =
    JNull
  | JBool bool
  | JNum rat
  | JStr string
  | JArr "json list"
  | JObj "(string \<times> json) list"

text \<open>The exception classes that occur; \<open>except Exception\<close> catches every one of them.\<close>

datatype exn =
    FileNotFoundError
  | JSONDecodeError
  | AttributeError
  | KeyError
  | TypeError
  | OSError

text \<open>
  The state mapping: bare filename to last seen modification time. A modification time
  is a finite float and a number of the state file is an integer or a finite float;
  Python compares the two exactly, so both are rationals here. The values of the state
  file are taken to be numbers, as the data model has them.
\<close>

type_synonym mtime = rat
type_synonym state_map = "string \<Rightarrow> mtime option"

text \<open>The lines of the log and the toasts, with the fields their texts are formatted from.\<close>

datatype level = INFO | ERROR

datatype msg =
    StartingBackup
  | ConfigLoaded
  | MalformedConfig
  | MalformedSourceEntry
  | CouldNotFindConfig
  | CouldNotParseConfig
  | FailedToNotify exn
  | NewOrModified string string
  | Copying string string
  | Skipping string
  | FailedToProcess json exn
  | ProcessComplete nat nat
  | BackupFailed exn

text \<open>
  The library and system calls, as the results they give during a run. The sources are
  read only: a copy into the backup tree does not change what \<open>os_walk\<close>,
  \<open>os_listdir\<close> and \<open>os_getmtime\<close> report. \<open>open_config\<close> is \<open>open\<close> followed by
  \<open>json.load\<close> on the configuration path; \<open>datetime_now k\<close> is the formatted time of the
  k-th reading of the clock; \<open>write_state\<close> gives, when writing the state file raises,
  the exception and what reading the file gives from then on.
\<close>

record env =
  setup_logger :: "exn option"
  open_config :: "exn + json"
  show_toast :: "string \<Rightarrow> msg \<Rightarrow> exn option"
  os_path_expandvars :: "string \<Rightarrow> string"
  os_path_join :: "string \<Rightarrow> string \<Rightarrow> string"
  os_walk :: "string \<Rightarrow> (string \<times> string list \<times> string list) list"
  os_listdir :: "string \<Rightarrow> exn + string list"
  os_getmtime :: "string \<Rightarrow> exn + mtime"
  os_makedirs :: "string \<Rightarrow> exn option"
  datetime_now :: "nat \<Rightarrow> string"
  shutil_copy2 :: "string \<Rightarrow> string \<Rightarrow> exn option"
  write_state :: "state_map \<Rightarrow> (exn \<times> (exn + state_map)) option"

text \<open>
  The attributes of the service object (\<open>load_failed\<close>, \<open>backup_failed\<close>, \<open>state\<close>,
  \<open>config\<close>) and what the program leaves outside of it: the state file (what opening and
  parsing it gives), the log, the toasts asked for, the directories made, the copies
  made (source file and destination directory) and the number of clock readings.
\<close>

record world =
  load_failed :: bool
  backup_failed :: bool
  state :: state_map
  config :: "json option"
  state_file :: "exn + state_map"
  log_lines :: "(level \<times> msg) list"
  toast_calls :: "(string \<times> msg) list"
  dirs_made :: "string list"
  copies :: "(string \<times> string) list"
  ticks :: nat

definition logger :: "level \<Rightarrow> msg \<Rightarrow> world \<Rightarrow> world" where
  "logger l m w = w\<lparr>log_lines := log_lines w @ [(l, m)]\<rparr>"

definition notify :: "env \<Rightarrow> string \<Rightarrow> msg \<Rightarrow> world \<Rightarrow> world" where
  "notify env title message w =
     (let w1 = w\<lparr>toast_calls := toast_calls w @ [(title, message)]\<rparr>
      in case show_toast env title message of
           None \<Rightarrow> w1
         | Some e \<Rightarrow> logger ERROR (FailedToNotify e) w1)"

section \<open>Configuration and state loading\<close>

text \<open>Truth value of a parsed value, as \<open>not x\<close> tests it.\<close>

fun truthy :: "json \<Rightarrow> bool" where
  "truthy JNull = False"
| "truthy (JBool b) = b"
| "truthy (JNum n) = (n \<noteq> 0)"
| "truthy (JStr s) = (s \<noteq> [])"
| "truthy (JArr xs) = (xs \<noteq> [])"
| "truthy (JObj kvs) = (kvs \<noteq> [])"

text \<open>\<open>d.get(key)\<close> on a dict: None when the key is absent.\<close>

definition dict_get :: "(string \<times> json) list \<Rightarrow> string \<Rightarrow> json" where
  "dict_get kvs key = (case map_of kvs key of None \<Rightarrow> JNull | Some v \<Rightarrow> v)"

text \<open>\<open>x[key]\<close> with a string key: KeyError on a dict without it, TypeError elsewhere.\<close>

fun subscript :: "json \<Rightarrow> string \<Rightarrow> exn + json" where
  "subscript (JObj kvs) key = (case map_of kvs key of None \<Rightarrow> Inl KeyError | Some v \<Rightarrow> Inr v)"
| "subscript _ key = Inl TypeError"

text \<open>What a \<open>for\<close> loop iterates over: the items of a list, the keys of a dict, the
  characters of a string; TypeError elsewhere.\<close>

fun iterate :: "json \<Rightarrow> exn + json list" where
  "iterate (JArr xs) = Inr xs"
| "iterate (JObj kvs) = Inr (map (\<lambda>kv. JStr (fst kv)) kvs)"
| "iterate (JStr s) = Inr (map (\<lambda>c. JStr [c]) s)"
| "iterate _ = Inl TypeError"

text \<open>An argument that has to be a \<open>str\<close> (\<open>os.path.expandvars\<close>, \<open>re.sub\<close>).\<close>

fun as_str :: "json \<Rightarrow> exn + string" where
  "as_str (JStr s) = Inr s"
| "as_str _ = Inl TypeError"

fun is_list :: "json \<Rightarrow> bool" where
  "is_list (JArr xs) = True"
| "is_list _ = False"

text \<open>The test of the loop over the source directories: the entry is rejected.\<close>

fun bad_entry :: "json \<Rightarrow> bool" where
  "bad_entry (JObj kvs) = (\<not> truthy (dict_get kvs ''path'') \<or> \<not> truthy (dict_get kvs ''name''))"
| "bad_entry _ = True"

definition load_config_file :: "env \<Rightarrow> world \<Rightarrow> (exn + json option) \<times> world" where
  "load_config_file env w =
     (case open_config env of
        Inl FileNotFoundError \<Rightarrow>
          (Inr None, notify env ''Souls Backup'' CouldNotFindConfig
                       (logger ERROR CouldNotFindConfig w))
      | Inl JSONDecodeError \<Rightarrow>
          (Inr None, notify env ''Souls Backup'' CouldNotParseConfig
                       (logger ERROR CouldNotParseConfig w))
      | Inl e \<Rightarrow> (Inl e, w)
      | Inr (JObj kvs) \<Rightarrow>
          if \<not> is_list (dict_get kvs ''source_directories'')
             \<or> \<not> truthy (dict_get kvs ''backup_directory'')
          then (Inr None, (logger ERROR MalformedConfig w)\<lparr>load_failed := True\<rparr>)
          else (case iterate (dict_get kvs ''source_directories'') of
                  Inl e \<Rightarrow> (Inl e, w)
                | Inr entries \<Rightarrow>
                    if list_ex bad_entry entries
                    then (Inr None, (logger ERROR MalformedSourceEntry w)\<lparr>load_failed := True\<rparr>)
                    else (Inr (Some (JObj kvs)), w))
      | Inr _ \<Rightarrow> (Inl AttributeError, w))"

definition load_state_file :: "world \<Rightarrow> exn + state_map" where
  "load_state_file w =
     (case state_file w of
        Inl FileNotFoundError \<Rightarrow> Inr Map.empty
      | Inl e \<Rightarrow> Inl e
      | Inr st \<Rightarrow> Inr st)"

definition save_state_file :: "env \<Rightarrow> world \<Rightarrow> exn option \<times> world" where
  "save_state_file env w =
     (case write_state env (state w) of
        None \<Rightarrow> (None, w\<lparr>state_file := Inr (state w)\<rparr>)
      | Some (e, left) \<Rightarrow> (Some e, w\<lparr>state_file := left\<rparr>))"

text \<open>
  The constructor followed by \<open>_init_state_and_config\<close>: a new service object in the world
  \<open>w0\<close> left by whatever ran before. An exception leaves the constructor (\<open>Some e\<close>).
\<close>

definition init :: "env \<Rightarrow> world \<Rightarrow> exn option \<times> world" where
  "init env w0 =
     (let w = w0\<lparr>load_failed := False, backup_failed := False,
                  state := Map.empty, config := None\<rparr>
      in case setup_logger env of
           Some e \<Rightarrow> (Some e, w)
         | None \<Rightarrow>
            (let w1 = logger INFO StartingBackup w
             in case load_state_file w1 of
                  Inl e \<Rightarrow> (Some e, w1)
                | Inr st \<Rightarrow>
                   (case load_config_file env (w1\<lparr>state := st\<rparr>) of
                      (Inl e, w2) \<Rightarrow> (Some e, w2)
                    | (Inr None, w2) \<Rightarrow> (None, w2\<lparr>load_failed := True\<rparr>)
                    | (Inr (Some c), w2) \<Rightarrow>
                        (None, logger INFO ConfigLoaded (w2\<lparr>config := Some c\<rparr>)))))"

section \<open>The backup engine (_process_source_directory)\<close>

text \<open>
  \<open>str.isdigit\<close>: a non-empty string of digit characters. Below code point 256 these are
  0 to 9 and the superscripts two, three and one.
\<close>

definition isdigit_char :: "char \<Rightarrow> bool" where
  "isdigit_char c = (c \<in> set string_digits \<or> c \<in> set [CHR 0xB2, CHR 0xB3, CHR 0xB9])"

definition isdigit :: "string \<Rightarrow> bool" where
  "isdigit s = (s \<noteq> [] \<and> list_all isdigit_char s)"

definition endswith :: "string \<Rightarrow> string \<Rightarrow> bool" where
  "endswith s suffix =
     (length suffix \<le> length s \<and> drop (length s - length suffix) s = suffix)"

text \<open>
  A \<open>for\<close> loop whose body may raise: the body takes an item, the local variables and the
  world; an exception ends the loop and keeps the world as the body left it.
\<close>

fun for_each ::
  "('a \<Rightarrow> 'v \<Rightarrow> world \<Rightarrow> (exn + 'v) \<times> world) \<Rightarrow> 'a list \<Rightarrow> 'v \<Rightarrow> world \<Rightarrow> (exn + 'v) \<times> world"
where
  "for_each body [] vars w = (Inr vars, w)"
| "for_each body (x # xs) vars w =
     (case body x vars w of
        (Inl e, w1) \<Rightarrow> (Inl e, w1)
      | (Inr vars1, w1) \<Rightarrow> for_each body xs vars1 w1)"

text \<open>
  The body of the innermost loop, for one name of the directory listing. The local
  variables are \<open>file_count\<close> and \<open>backup_path\<close>.
\<close>

definition process_file ::
  "env \<Rightarrow> string \<Rightarrow> string \<Rightarrow> string \<Rightarrow> nat \<times> string \<Rightarrow> world \<Rightarrow> (exn + nat \<times> string) \<times> world"
where
  "process_file env base_name dir_path file vars w =
     (case vars of (file_count, backup_path) \<Rightarrow>
      if endswith file ''.sl2'' then
        (let file_path = os_path_join env dir_path file
         in case os_getmtime env file_path of
              Inl e \<Rightarrow> (Inl e, w)
            | Inr last_modified \<Rightarrow>
                if (case state w file of None \<Rightarrow> True | Some stored \<Rightarrow> last_modified > stored)
                then
                  (let w1 = logger INFO (NewOrModified base_name file) w
                   in case os_makedirs env backup_path of
                        Some e \<Rightarrow> (Inl e, w1)
                      | None \<Rightarrow>
                         (let w2 = w1\<lparr>dirs_made := dirs_made w1 @ [backup_path]\<rparr>;
                              timestamp = datetime_now env (ticks w2);
                              w3 = w2\<lparr>ticks := Suc (ticks w2)\<rparr>;
                              backup_path1 = os_path_join env backup_path timestamp
                          in case os_makedirs env backup_path1 of
                               Some e \<Rightarrow> (Inl e, w3)
                             | None \<Rightarrow>
                                (let w4 = w3\<lparr>dirs_made := dirs_made w3 @ [backup_path1]\<rparr>;
                                     w5 = logger INFO (Copying file backup_path1) w4
                                 in case shutil_copy2 env file_path backup_path1 of
                                      Some e \<Rightarrow> (Inl e, w5)
                                    | None \<Rightarrow>
                                       (Inr (file_count + 1, backup_path1),
                                        w5\<lparr>copies := copies w5 @ [(file_path, backup_path1)],
                                           state := (state w5)(file \<mapsto> last_modified)\<rparr>))))
                else (Inr (file_count, backup_path), logger INFO (Skipping file) w))
      else (Inr vars, w))"

text \<open>The body of the loop over \<open>dirs\<close>, for one directory name under the walk's \<open>root\<close>.\<close>

definition process_dir ::
  "env \<Rightarrow> string \<Rightarrow> string \<Rightarrow> string \<Rightarrow> nat \<times> string \<Rightarrow> world \<Rightarrow> (exn + nat \<times> string) \<times> world"
where
  "process_dir env base_name root_dir dir_name vars w =
     (if isdigit dir_name then
        (let dir_path = os_path_join env root_dir dir_name
         in case os_listdir env dir_path of
              Inl e \<Rightarrow> (Inl e, w)
            | Inr files \<Rightarrow> for_each (process_file env base_name dir_path) files vars w)
      else (Inr vars, w))"

text \<open>The body of the loop over \<open>os.walk(path)\<close>, for one triple of the walk.\<close>

definition process_root ::
  "env \<Rightarrow> string \<Rightarrow> string \<times> string list \<times> string list \<Rightarrow> nat \<times> string \<Rightarrow> world
     \<Rightarrow> (exn + nat \<times> string) \<times> world"
where
  "process_root env base_name triple vars w =
     (case triple of (root_dir, dirs, files) \<Rightarrow>
        for_each (process_dir env base_name root_dir) dirs vars w)"

text \<open>
  What the function computes before its loop: the walked path, the display name and
  the first value of \<open>backup_path\<close>; the first subscript or conversion that fails raises.
\<close>

definition entry_paths :: "env \<Rightarrow> json \<Rightarrow> world \<Rightarrow> exn + string \<times> string \<times> string" where
  "entry_paths env source_path w =
     (case subscript source_path ''path'' of Inl e \<Rightarrow> Inl e | Inr p \<Rightarrow>
     (case subscript source_path ''name'' of Inl e \<Rightarrow> Inl e | Inr n \<Rightarrow>
     (case as_str p of Inl e \<Rightarrow> Inl e | Inr path0 \<Rightarrow>
     (case as_str n of Inl e \<Rightarrow> Inl e | Inr base_name \<Rightarrow>
     (case config w of None \<Rightarrow> Inl AttributeError | Some c \<Rightarrow>
     (case subscript c ''backup_directory'' of Inl e \<Rightarrow> Inl e | Inr b \<Rightarrow>
     (case as_str b of Inl e \<Rightarrow> Inl e | Inr backup_directory \<Rightarrow>
        Inr (os_path_expandvars env path0, base_name,
             os_path_join env (os_path_expandvars env backup_directory)
               (make_safe_filename base_name)))))))))"

definition process_source_directory :: "env \<Rightarrow> json \<Rightarrow> world \<Rightarrow> (exn + nat) \<times> world" where
  "process_source_directory env source_path w =
     (case entry_paths env source_path w of
        Inl e \<Rightarrow> (Inl e, w)
      | Inr (path, base_name, backup_path) \<Rightarrow>
         (case for_each (process_root env base_name) (os_walk env path) (0, backup_path) w of
            (Inl e, w1) \<Rightarrow> (Inl e, w1)
          | (Inr (file_count, backup_path1), w1) \<Rightarrow> (Inr file_count, w1)))"

section \<open>The orchestrator (perform_backup)\<close>

text \<open>
  The loop over the source entries; its local variables are \<open>files_processed\<close> and
  \<open>files_backed_up\<close>. The handler of an entry's exception reads the entry's name for the
  log line, which raises out of the loop on an entry without one.
\<close>

definition backup_entry :: "env \<Rightarrow> json \<Rightarrow> nat \<times> nat \<Rightarrow> world \<Rightarrow> (exn + nat \<times> nat) \<times> world" where
  "backup_entry env source_path vars w =
     (case vars of (files_processed, files_backed_up) \<Rightarrow>
       (case process_source_directory env source_path w of
          (Inr files_backed, w1) \<Rightarrow>
            (Inr (files_processed + 1, files_backed_up + files_backed), w1)
        | (Inl e, w1) \<Rightarrow>
            (case subscript source_path ''name'' of
               Inl e2 \<Rightarrow> (Inl e2, w1)
             | Inr name \<Rightarrow> (Inr vars, logger ERROR (FailedToProcess name e) w1))))"

text \<open>The body of the outer \<open>try\<close>.\<close>

definition backup_body :: "env \<Rightarrow> world \<Rightarrow> (exn + bool) \<times> world" where
  "backup_body env w =
     (case config w of None \<Rightarrow> (Inl AttributeError, w) | Some c \<Rightarrow>
     (case subscript c ''source_directories'' of Inl e \<Rightarrow> (Inl e, w) | Inr sd \<Rightarrow>
     (case iterate sd of Inl e \<Rightarrow> (Inl e, w) | Inr entries \<Rightarrow>
     (case for_each (backup_entry env) entries (0, 0) w of
        (Inl e, w1) \<Rightarrow> (Inl e, w1)
      | (Inr (files_processed, files_backed_up), w1) \<Rightarrow>
          if files_processed > 0 then
            (case save_state_file env w1 of
               (Some e, w2) \<Rightarrow> (Inl e, w2)
             | (None, w2) \<Rightarrow>
                 (Inr True, logger INFO (ProcessComplete files_backed_up files_processed) w2))
          else (Inr False, w1)))))"

text \<open>The return value is None, True or False.\<close>

definition perform_backup :: "env \<Rightarrow> world \<Rightarrow> bool option \<times> world" where
  "perform_backup env w =
     (if load_failed w then (None, w)
      else case backup_body env w of
             (Inr backup_success, w1) \<Rightarrow> (Some backup_success, w1)
           | (Inl e, w1) \<Rightarrow>
               (Some False,
                (notify env ''Souls Backup'' (BackupFailed e)
                   (logger ERROR (BackupFailed e) w1))\<lparr>backup_failed := True\<rparr>))"

text \<open>The program: construct the service, then one backup pass.\<close>

definition main :: "env \<Rightarrow> world \<Rightarrow> (exn + bool option) \<times> world" where
  "main env w0 =
     (case init env w0 of
        (Some e, w) \<Rightarrow> (Inl e, w)
      | (None, w) \<Rightarrow> (case perform_backup env w of (r, w1) \<Rightarrow> (Inr r, w1)))"

section \<open>Notions used in the statements\<close>

text \<open>Steps 1 to 3 of the sanitizer: both character filters, then the trimming.\<close>

definition clean_and_trim :: "string \<Rightarrow> string" where
  "clean_and_trim s =
     strip ''. '' (filter (\<lambda>c. c \<in> set string_printable) (filter (\<lambda>c. c \<notin> set forbidden_chars) s))"

text \<open>The test of step 4 on a name.\<close>

definition reserved_stem :: "string \<Rightarrow> bool" where
  "reserved_stem t = (upper (split_first (CHR ''.'') t) \<in> set reserved_names)"

text \<open>
  A name that steps 1 to 3 leave alone: not empty, made of printable characters that
  are not forbidden, with no space or period at either end.
\<close>

definition valid_name :: "string \<Rightarrow> bool" where
  "valid_name s =
     (s \<noteq> [] \<and> list_all (\<lambda>c. c \<notin> set forbidden_chars \<and> c \<in> set string_printable) s
      \<and> hd s \<notin> set ''. '' \<and> last s \<notin> set ''. '')"

text \<open>
  The items \<open>kvs\<close> of a configuration object that the loader rejects as malformed:
  \<open>source_directories\<close> is missing or no list, or \<open>backup_directory\<close> is missing or
  empty, or an entry of the list is no object or lacks a path or a name.
\<close>

definition malformed_object :: "(string \<times> json) list \<Rightarrow> bool" where
  "malformed_object kvs =
     (case dict_get kvs ''source_directories'' of
        JArr entries \<Rightarrow>
          \<not> truthy (dict_get kvs ''backup_directory'') \<or> list_ex bad_entry entries
      | _ \<Rightarrow> True)"

text \<open>
  The run is disabled: the constructor returns with \<open>load_failed\<close> set, and the backup
  pass that follows returns None and changes nothing.
\<close>

definition run_disabled :: "env \<Rightarrow> world \<Rightarrow> bool" where
  "run_disabled env w0 =
     (fst (init env w0) = None \<and> load_failed (snd (init env w0))
      \<and> perform_backup env (snd (init env w0)) = (None, snd (init env w0)))"

text \<open>
  The results of the engine's calls in one backup pass over the entries \<open>sps\<close>, in
  order, each call made in the world the loop body left after the entry before; how
  many of them completed without raising; and the sum of the counts they returned.
\<close>

fun entry_results :: "env \<Rightarrow> json list \<Rightarrow> world \<Rightarrow> (exn + nat) list" where
  "entry_results env [] w = []"
| "entry_results env (sp # sps) w =
     fst (process_source_directory env sp w)
       # entry_results env sps (snd (backup_entry env sp (0, 0) w))"

definition completed :: "(exn + nat) list \<Rightarrow> nat" where
  "completed rs = length (filter (\<lambda>r. \<not> isl r) rs)"

definition backed_up :: "(exn + nat) list \<Rightarrow> nat" where
  "backed_up rs = sum_list (map (\<lambda>r. case r of Inl e \<Rightarrow> 0 | Inr n \<Rightarrow> n) rs)"

text \<open>
  What the walk of a source path comes upon, in the order of the walk: for every
  subdirectory with a name of digits only, the names of its listing that end in
  \<open>.sl2\<close>, each with the path of the subdirectory; a subdirectory of that kind that
  cannot be listed stands as the exception of the listing.
\<close>

datatype item = Unlistable exn | Save_file string string

definition found_in_dir :: "env \<Rightarrow> string \<Rightarrow> string \<Rightarrow> item list" where
  "found_in_dir env root_dir d =
     (if isdigit d then
        (case os_listdir env (os_path_join env root_dir d) of
           Inl e \<Rightarrow> [Unlistable e]
         | Inr files \<Rightarrow>
             map (Save_file (os_path_join env root_dir d))
               (filter (\<lambda>f. endswith f ''.sl2'') files))
      else [])"

definition found :: "env \<Rightarrow> string \<Rightarrow> item list" where
  "found env path =
     concat (map (\<lambda>triple. case triple of (root_dir, dirs, files) \<Rightarrow>
                    concat (map (found_in_dir env root_dir) dirs))
               (os_walk env path))"

text \<open>
  Change detection as the specification words it, on the items found, from the state
  mapping \<open>st\<close>, the backup path and the number of clock readings at this point. A
  save file is changed when its name is no key of \<open>st\<close> or its modification time is
  strictly greater than the stored one: it is copied into a new timestamp directory
  under the backup path and its entry in \<open>st\<close> set to that time; otherwise it is
  skipped and nothing changes. The first listing, time reading, directory creation or
  copy that raises ends the processing. The result is the copies made (source file
  and destination directory), the state mapping at the end, and the exception if one
  was raised.
\<close>

fun detect ::
  "env \<Rightarrow> item list \<Rightarrow> state_map \<Rightarrow> string \<Rightarrow> nat
     \<Rightarrow> (string \<times> string) list \<times> state_map \<times> exn option"
where
  "detect env [] st backup_path t = ([], st, None)"
| "detect env (Unlistable e # items) st backup_path t = ([], st, Some e)"
| "detect env (Save_file dir_path file # items) st backup_path t =
     (let src = os_path_join env dir_path file;
          dest = os_path_join env backup_path (datetime_now env t)
      in case os_getmtime env src of
           Inl e \<Rightarrow> ([], st, Some e)
         | Inr m \<Rightarrow>
             if (case st file of None \<Rightarrow> True | Some stored \<Rightarrow> stored < m) then
               (case os_makedirs env backup_path of
                  Some e \<Rightarrow> ([], st, Some e)
                | None \<Rightarrow>
                   (case os_makedirs env dest of
                      Some e \<Rightarrow> ([], st, Some e)
                    | None \<Rightarrow>
                       (case shutil_copy2 env src dest of
                          Some e \<Rightarrow> ([], st, Some e)
                        | None \<Rightarrow>
                           (case detect env items (st(file \<mapsto> m)) dest (Suc t) of
                              (cs, st1, x) \<Rightarrow> ((src, dest) # cs, st1, x)))))
             else detect env items st backup_path t)"

text \<open>
  The body of a single loop over the items found, and the items whose save files all
  end in \<open>.sl2\<close>.
\<close>

definition visit ::
  "env \<Rightarrow> string \<Rightarrow> item \<Rightarrow> nat \<times> string \<Rightarrow> world \<Rightarrow> (exn + nat \<times> string) \<times> world"
where
  "visit env base_name it vars w =
     (case it of
        Unlistable e \<Rightarrow> (Inl e, w)
      | Save_file dir_path file \<Rightarrow> process_file env base_name dir_path file vars w)"

definition sl2_items :: "item list \<Rightarrow> bool" where
  "sl2_items items = list_all (\<lambda>it. case it of Unlistable e \<Rightarrow> True
                                   | Save_file dp f \<Rightarrow> endswith f ''.sl2'') items"

text \<open>
  The order on state mappings: every key of \<open>s\<close> is a key of \<open>s'\<close>, with a value that
  is not smaller.
\<close>

definition le_state :: "state_map \<Rightarrow> state_map \<Rightarrow> bool" where
  "le_state s s' = (\<forall>k v. s k = Some v \<longrightarrow> (\<exists>v'. s' k = Some v' \<and> v \<le> v'))"

text \<open>
  The directory \<open>k\<close> levels under \<open>base\<close>, each level named by one reading of the clock,
  the readings starting at number \<open>t\<close>; and the first \<open>k\<close> of these directories.
\<close>

fun nested_path :: "env \<Rightarrow> string \<Rightarrow> nat \<Rightarrow> nat \<Rightarrow> string" where
  "nested_path env base t 0 = base"
| "nested_path env base t (Suc k) =
     os_path_join env (nested_path env base t k) (datetime_now env (t + k))"

definition nested_dirs :: "env \<Rightarrow> string \<Rightarrow> nat \<Rightarrow> nat \<Rightarrow> string list" where
  "nested_dirs env base t k = map (\<lambda>i. nested_path env base t (Suc i)) [0..<k]"

text \<open>
  The invariant of the engine's loops about the copies made since the call began (with
  \<open>c0\<close> copied before and \<open>t0\<close> clock readings before): they went into the first
  directories under \<open>base\<close>, one level deeper each; the count is their number and
  \<open>backup_path\<close> the deepest of them. The second form is what is left of it when the
  call raises.
\<close>

definition chain_inv :: "env \<Rightarrow> string \<Rightarrow> nat \<Rightarrow> (string \<times> string) list \<Rightarrow> nat \<times> string \<Rightarrow> world \<Rightarrow> bool" where
  "chain_inv env base t0 c0 v w =
     (\<exists>srcs. copies w = c0 @ zip srcs (nested_dirs env base t0 (length srcs))
             \<and> fst v = length srcs \<and> snd v = nested_path env base t0 (length srcs)
             \<and> ticks w = t0 + length srcs)"

definition chain_fail :: "env \<Rightarrow> string \<Rightarrow> nat \<Rightarrow> (string \<times> string) list \<Rightarrow> world \<Rightarrow> bool" where
  "chain_fail env base t0 c0 w =
     (\<exists>srcs. copies w = c0 @ zip srcs (nested_dirs env base t0 (length srcs)))"

section \<open>Concrete runs\<close>

text \<open>
  A source tree \<open>S\<close> with the save slots \<open>1\<close> (holding \<open>A.sl2\<close>, modified at 10, and a text
  file) and \<open>2\<close> (holding \<open>B.sl2\<close>, modified at 20) and a directory \<open>x\<close> that is no save
  slot; a tree \<open>L\<close> whose save slot \<open>7\<close> cannot be listed; the backup root \<open>B\<close>.
\<close>

definition entry_ds :: json where
  "entry_ds = JObj [(''path'', JStr ''S''), (''name'', JStr ''DS'')]"

definition entry_locked :: json where
  "entry_locked = JObj [(''path'', JStr ''L''), (''name'', JStr ''ER'')]"

definition config_one :: json where
  "config_one =
     JObj [(''backup_directory'', JStr ''B''), (''source_directories'', JArr [entry_ds])]"

definition config_two :: json where
  "config_two =
     JObj [(''backup_directory'', JStr ''B''),
           (''source_directories'', JArr [entry_locked, entry_ds])]"

definition env_ok :: env where
  "env_ok = \<lparr>
     setup_logger = None,
     open_config = Inr config_one,
     show_toast = (\<lambda>title message. None),
     os_path_expandvars = (\<lambda>p. p),
     os_path_join = (\<lambda>a b. a @ ''/'' @ b),
     os_walk = (\<lambda>p. if p = ''S'' then [(''S'', [''1'', ''2'', ''x''], []),
                                       (''S/1'', [], [''A.sl2'', ''notes.txt'']),
                                       (''S/2'', [], [''B.sl2'']),
                                       (''S/x'', [], [''C.sl2''])]
                      else if p = ''L'' then [(''L'', [''7''], []), (''L/7'', [], [])]
                      else []),
     os_listdir = (\<lambda>p. if p = ''S/1'' then Inr [''A.sl2'', ''notes.txt'']
                         else if p = ''S/2'' then Inr [''B.sl2'']
                         else if p = ''S/x'' then Inr [''C.sl2'']
                         else Inl OSError),
     os_getmtime = (\<lambda>p. if p = ''S/1/A.sl2'' then Inr 10
                          else if p = ''S/2/B.sl2'' then Inr 20
                          else Inl FileNotFoundError),
     os_makedirs = (\<lambda>p. None),
     datetime_now = (\<lambda>k. if k = 0 then ''2024_01_01__120000'' else ''2024_01_01__120001''),
     shutil_copy2 = (\<lambda>src dst. None),
     write_state = (\<lambda>st. None) \<rparr>"

text \<open>The same with both trees configured, the unreadable one first.\<close>

definition env_two :: env where
  "env_two = env_ok\<lparr>open_config := Inr config_two\<rparr>"

text \<open>The same with \<open>B.sl2\<close> locked: copying it raises.\<close>

definition env_copy_fails :: env where
  "env_copy_fails =
     env_ok\<lparr>shutil_copy2 := (\<lambda>src dst. if src = ''S/2/B.sl2'' then Some OSError else None)\<rparr>"

text \<open>The same with a state file that cannot be opened for writing.\<close>

definition env_write_fails :: env where
  "env_write_fails = env_ok\<lparr>write_state := (\<lambda>st. Some (OSError, Inl FileNotFoundError))\<rparr>"

text \<open>The same with a configuration file that lacks \<open>backup_directory\<close>.\<close>

definition env_malformed :: env where
  "env_malformed = env_ok\<lparr>open_config := Inr (JObj [(''source_directories'', JArr [entry_ds])])\<rparr>"

text \<open>The same with no configuration file.\<close>

definition env_no_config :: env where
  "env_no_config = env_ok\<lparr>open_config := Inl FileNotFoundError\<rparr>"

text \<open>Before the first run: no state file, nothing logged, nothing copied.\<close>

definition world0 :: world where
  "world0 = \<lparr> load_failed = False, backup_failed = False, state = Map.empty, config = None,
     state_file = Inl FileNotFoundError, log_lines = [], toast_calls = [], dirs_made = [],
     copies = [], ticks = 0 \<rparr>"

text \<open>A service with the configuration loaded, and one that has seen \<open>A.sl2\<close> at time 10,
  or at time 5.\<close>

definition world_cfg :: world where
  "world_cfg = world0\<lparr>config := Some config_one\<rparr>"

definition world_seen :: world where
  "world_seen = world_cfg\<lparr>state := [''A.sl2'' \<mapsto> 10]\<rparr>"

definition world_seen5 :: world where
  "world_seen5 = world_cfg\<lparr>state := [''A.sl2'' \<mapsto> 5]\<rparr>"

text \<open>A state file that does not parse.\<close>

definition world_corrupt :: world where
  "world_corrupt = world0\<lparr>state_file := Inl JSONDecodeError\<rparr>"

text \<open>The service after its constructor, with both trees configured, and with the
  state file that cannot be written.\<close>

definition world_two :: world where
  "world_two = snd (init env_two world0)"

definition world_one :: world where
  "world_one = snd (init env_write_fails world0)"

text \<open>What the first run leaves, and what the first run leaves when \<open>B.sl2\<close> is locked.\<close>

definition world_first_run :: world where
  "world_first_run = snd (main env_ok world0)"

definition world_first_failed :: world where
  "world_first_failed = snd (main env_copy_fails world0)"

section \<open>The sanitizer's properties\<close>

lemma make_safe_filename_unfold:
  "make_safe_filename s =
     take 255 (if reserved_stem (clean_and_trim s) then CHR ''_'' # clean_and_trim s
               else if clean_and_trim s = [] then ''_empty_'' else clean_and_trim s)"
  by (simp add: make_safe_filename_def clean_and_trim_def reserved_stem_def Let_def)

lemma set_strip: "set (strip cs s) \<subseteq> set s"
  by (auto simp: strip_def dest!: set_dropWhileD)

lemma clean_and_trim_not_forbidden: "c \<in> set (clean_and_trim s) \<Longrightarrow> c \<notin> set forbidden_chars"
proof -
  assume "c \<in> set (clean_and_trim s)"
  then have "c \<in> set (filter (\<lambda>c. c \<in> set string_printable) (filter (\<lambda>c. c \<notin> set forbidden_chars) s))"
    unfolding clean_and_trim_def using set_strip by blast
  then show ?thesis by simp
qed

lemma strip_id: "s \<noteq> [] \<Longrightarrow> hd s \<notin> set cs \<Longrightarrow> last s \<notin> set cs \<Longrightarrow> strip cs s = s"
proof -
  assume ne: "s \<noteq> []" and h: "hd s \<notin> set cs" and l: "last s \<notin> set cs"
  have 1: "dropWhile (\<lambda>c. c \<in> set cs) s = s"
    using ne h by (cases s) simp_all
  have "hd (rev s) \<notin> set cs" using ne l by (simp add: hd_rev)
  then have 2: "dropWhile (\<lambda>c. c \<in> set cs) (rev s) = rev s"
    using ne by (cases "rev s") simp_all
  show ?thesis by (simp add: strip_def 1 2)
qed

lemma clean_and_trim_valid: "valid_name s \<Longrightarrow> clean_and_trim s = s"
proof -
  assume v: "valid_name s"
  then have a: "filter (\<lambda>c. c \<notin> set forbidden_chars) s = s"
    by (simp add: valid_name_def list_all_iff)
  from v have b: "filter (\<lambda>c. c \<in> set string_printable) s = s"
    by (simp add: valid_name_def list_all_iff)
  from v have "strip ''. '' s = s"
    unfolding valid_name_def by (intro strip_id) simp_all
  then show ?thesis by (simp add: clean_and_trim_def a b)
qed

lemma clean_and_trim_all_forbidden: "set s \<subseteq> set forbidden_chars \<Longrightarrow> clean_and_trim s = []"
proof -
  assume "set s \<subseteq> set forbidden_chars"
  then have "filter (\<lambda>c. c \<notin> set forbidden_chars) s = []"
    by (auto simp: filter_empty_conv)
  then show ?thesis by (simp add: clean_and_trim_def strip_def)
qed

lemma not_reserved_empty: "\<not> reserved_stem []"
  by (simp add: reserved_stem_def upper_def split_first_def reserved_names_def)

lemma underscore_not_forbidden: "CHR ''_'' \<notin> set forbidden_chars"
  by (simp add: forbidden_chars_def)

lemma placeholder_not_forbidden: "c \<in> set ''_empty_'' \<Longrightarrow> c \<notin> set forbidden_chars"
  by (auto simp: forbidden_chars_def)

lemma valid_replicate_a: "valid_name (replicate 300 (CHR ''a''))"
proof -
  have "CHR ''a'' \<notin> set forbidden_chars" by (simp add: forbidden_chars_def)
  moreover have "CHR ''a'' \<in> set string_printable"
    by (simp add: string_printable_def string_ascii_letters_def)
  ultimately show ?thesis
    by (simp add: valid_name_def list_all_iff hd_replicate last_replicate)
qed

lemma not_reserved_replicate_a: "\<not> reserved_stem (replicate 300 (CHR ''a''))"
proof
  assume "reserved_stem (replicate 300 (CHR ''a''))"
  then have "upper (replicate 300 (CHR ''a'')) \<in> set reserved_names"
    by (simp add: reserved_stem_def split_first_def takeWhile_eq_all_conv[THEN iffD2])
  then have "\<exists>n \<in> set reserved_names. length n = 300"
    by (metis length_map length_replicate upper_def)
  then show False by (simp add: reserved_names_def)
qed

text \<open>
  C6, at the input a, tab, b: step 2 keeps every member of \<open>string.printable\<close>, and
  the tab is one of them, so the result still holds the tab (a control character).
\<close>

theorem make_safe_filename_keeps_tab:
  "make_safe_filename [CHR ''a'', CHR 0x09, CHR ''b''] = [CHR ''a'', CHR 0x09, CHR ''b'']
   \<and> CHR 0x09 \<in> set (make_safe_filename [CHR ''a'', CHR 0x09, CHR ''b''])"
  by code_simp

text \<open>
  C7: when the name left by the character filters and the trimming has a reserved stem
  (what stands before its first period, in upper case, is a reserved device name), the
  result is that name with an underscore in front, cut to 255 characters. The test
  reads the filtered and trimmed name; the placeholder and the cut come after the
  prefix.
\<close>

theorem reserved_name_prefixed:
  "reserved_stem (clean_and_trim s) \<Longrightarrow>
     make_safe_filename s = take 255 (CHR ''_'' # clean_and_trim s)"
  by (simp add: make_safe_filename_unfold)

theorem reserved_name_prefixed_witness:
  "reserved_stem (clean_and_trim '' C<ON.txt '') \<and> make_safe_filename '' C<ON.txt '' = ''_CON.txt''"
proof -
  have c: "clean_and_trim '' C<ON.txt '' = ''CON.txt''" by code_simp
  have r: "reserved_stem (clean_and_trim '' C<ON.txt '')" unfolding c by code_simp
  show ?thesis using r reserved_name_prefixed [OF r] by (simp add: c)
qed

text \<open>
  C8: the sanitizer returns a name for every input, not empty and of at most 255
  characters; no forbidden character is in it; an input of forbidden characters only
  gives the placeholder \<open>_empty_\<close>; a valid name of more than 255 characters gives 255
  characters, its first 255 unless its stem is reserved.
\<close>

theorem sanitizer_output:
  "(\<forall>c \<in> set (make_safe_filename s). c \<notin> set forbidden_chars)
   \<and> (set s \<subseteq> set forbidden_chars \<longrightarrow> make_safe_filename s = ''_empty_'')
   \<and> (valid_name s \<and> 255 < length s \<longrightarrow>
        length (make_safe_filename s) = 255
        \<and> (\<not> reserved_stem s \<longrightarrow> make_safe_filename s = take 255 s))
   \<and> make_safe_filename s \<noteq> [] \<and> length (make_safe_filename s) \<le> 255"
proof (intro conjI ballI impI)
  fix c assume "c \<in> set (make_safe_filename s)"
  then have "c \<in> set (if reserved_stem (clean_and_trim s) then CHR ''_'' # clean_and_trim s
               else if clean_and_trim s = [] then ''_empty_'' else clean_and_trim s)"
    unfolding make_safe_filename_unfold by (rule in_set_takeD)
  then consider "c = CHR ''_''" | "c \<in> set (clean_and_trim s)" | "c \<in> set ''_empty_''"
    by (auto split: if_splits)
  then show "c \<notin> set forbidden_chars"
    using underscore_not_forbidden clean_and_trim_not_forbidden placeholder_not_forbidden
    by cases blast+
next
  assume "set s \<subseteq> set forbidden_chars"
  then have "clean_and_trim s = []" by (rule clean_and_trim_all_forbidden)
  then show "make_safe_filename s = ''_empty_''"
    by (simp add: make_safe_filename_unfold not_reserved_empty)
next
  assume a: "valid_name s \<and> 255 < length s"
  then have c: "clean_and_trim s = s" by (simp add: clean_and_trim_valid)
  from a show "length (make_safe_filename s) = 255"
    by (auto simp: make_safe_filename_unfold c)
next
  assume a: "valid_name s \<and> 255 < length s" and n: "\<not> reserved_stem s"
  then have c: "clean_and_trim s = s" by (simp add: clean_and_trim_valid)
  from a n show "make_safe_filename s = take 255 s"
    by (auto simp: make_safe_filename_unfold c)
next
  show "make_safe_filename s \<noteq> []"
    by (simp add: make_safe_filename_unfold)
next
  show "length (make_safe_filename s) \<le> 255"
    by (simp add: make_safe_filename_unfold)
qed

theorem sanitizer_output_witness:
  "CHR ''<'' \<notin> set (make_safe_filename ''a<b>'')
   \<and> set ''<>?'' \<subseteq> set forbidden_chars \<and> make_safe_filename ''<>?'' = ''_empty_''
   \<and> valid_name (replicate 300 (CHR ''a'')) \<and> 255 < length (replicate 300 (CHR ''a''))
   \<and> make_safe_filename (replicate 300 (CHR ''a'')) = take 255 (replicate 300 (CHR ''a''))
   \<and> length (make_safe_filename (replicate 300 (CHR ''a''))) = 255"
proof -
  have f: "set ''<>?'' \<subseteq> set forbidden_chars" by (simp add: forbidden_chars_def)
  have l: "255 < length (replicate 300 (CHR ''a''))" by simp
  note v = valid_replicate_a
  have "CHR ''<'' \<in> set forbidden_chars" by (simp add: forbidden_chars_def)
  with sanitizer_output [of "''a<b>''", THEN conjunct1]
  have a: "CHR ''<'' \<notin> set (make_safe_filename ''a<b>'')" by blast
  note b = sanitizer_output [of "''<>?''", THEN conjunct2, THEN conjunct1, THEN mp, OF f]
  note c = sanitizer_output [of "replicate 300 (CHR ''a'')", THEN conjunct2, THEN conjunct2,
      THEN conjunct1, THEN mp, OF conjI [OF v l]]
  note d = c [THEN conjunct2, THEN mp, OF not_reserved_replicate_a]
  from a f b v l d c [THEN conjunct1] show ?thesis by (intro conjI)
qed

section \<open>Loops and the step on one file\<close>

lemma load_state_file_logger [simp]:
  "load_state_file (logger l m w) = load_state_file w"
  by (simp add: load_state_file_def logger_def)

lemma le_state_refl: "le_state s s"
  by (simp add: le_state_def)

lemma le_state_trans: "le_state a b \<Longrightarrow> le_state b c \<Longrightarrow> le_state a c"
  unfolding le_state_def by (meson order_trans)

lemma le_state_update:
  "(\<And>old. s k = Some old \<Longrightarrow> old \<le> m) \<Longrightarrow> le_state s (s(k \<mapsto> m))"
  by (simp add: le_state_def)

lemma for_each_inv:
  assumes step: "\<And>x v w v' w'. x \<in> set xs \<Longrightarrow> I v w \<Longrightarrow> body x v w = (Inr v', w') \<Longrightarrow> I v' w'"
      and fail: "\<And>x v w e w'. x \<in> set xs \<Longrightarrow> I v w \<Longrightarrow> body x v w = (Inl e, w') \<Longrightarrow> J w'"
      and init: "I v w"
      and run: "for_each body xs v w = (r, w')"
  shows "case r of Inr v' \<Rightarrow> I v' w' | Inl e \<Rightarrow> J w'"
  using step fail init run
proof (induction xs arbitrary: v w)
  case Nil
  then show ?case by auto
next
  case (Cons x xs)
  obtain r1 w1 where b: "body x v w = (r1, w1)" by (cases "body x v w")
  show ?case
  proof (cases r1)
    case (Inl e)
    with b Cons.prems(4) have "r = Inl e" "w' = w1" by auto
    moreover have "J w1" using Cons.prems(2) [of x v w e w1] Cons.prems(3) b Inl by simp
    ultimately show ?thesis by simp
  next
    case (Inr v1)
    with b Cons.prems(4) have run': "for_each body xs v1 w1 = (r, w')" by auto
    have i1: "I v1 w1" using Cons.prems(1) [of x v w v1 w1] Cons.prems(3) b Inr by simp
    show ?thesis
      by (rule Cons.IH [OF _ _ i1 run']) (auto intro: Cons.prems(1) Cons.prems(2))
  qed
qed

lemma for_each_world_inv:
  assumes step: "\<And>x v w r w'. x \<in> set xs \<Longrightarrow> P w \<Longrightarrow> body x v w = (r, w') \<Longrightarrow> P w'"
      and init: "P w"
      and run: "for_each body xs v w = (r, w')"
  shows "P w'"
proof -
  have "case r of Inr v' \<Rightarrow> P w' | Inl e \<Rightarrow> P w'"
    by (rule for_each_inv [where I = "\<lambda>v w. P w" and J = P, OF _ _ init run])
       (auto intro: step)
  then show ?thesis by (cases r) auto
qed

text \<open>The step on one file, case by case.\<close>

lemma process_file_other:
  "\<not> endswith file ''.sl2'' \<Longrightarrow> process_file env bn dp file v w = (Inr v, w)"
  by (simp add: process_file_def split: prod.splits)

lemma process_file_mtime_raises:
  "endswith file ''.sl2'' \<Longrightarrow> os_getmtime env (os_path_join env dp file) = Inl e \<Longrightarrow>
     process_file env bn dp file v w = (Inl e, w)"
  by (simp add: process_file_def split: prod.splits)

lemma process_file_skip:
  "endswith file ''.sl2'' \<Longrightarrow> os_getmtime env (os_path_join env dp file) = Inr m \<Longrightarrow>
   state w file = Some stored \<Longrightarrow> m \<le> stored \<Longrightarrow>
     process_file env bn dp file (n, bp) w = (Inr (n, bp), logger INFO (Skipping file) w)"
  by (simp add: process_file_def)

lemma process_file_changed:
  assumes "endswith file ''.sl2''" "os_getmtime env (os_path_join env dp file) = Inr m"
      and "state w file = None \<or> (\<exists>stored. state w file = Some stored \<and> stored < m)"
      and "process_file env bn dp file (n, bp) w = (r, w')"
  shows "(r = Inr (n + 1, os_path_join env bp (datetime_now env (ticks w)))
          \<and> copies w' = copies w @ [(os_path_join env dp file,
                                     os_path_join env bp (datetime_now env (ticks w)))]
          \<and> state w' = (state w)(file \<mapsto> m)
          \<and> ticks w' = Suc (ticks w) \<and> config w' = config w
          \<and> os_makedirs env bp = None
          \<and> os_makedirs env (os_path_join env bp (datetime_now env (ticks w))) = None
          \<and> shutil_copy2 env (os_path_join env dp file)
               (os_path_join env bp (datetime_now env (ticks w))) = None)
         \<or> ((\<exists>e. r = Inl e) \<and> copies w' = copies w \<and> state w' = state w \<and> config w' = config w
             \<and> (os_makedirs env bp \<noteq> None
                 \<or> os_makedirs env (os_path_join env bp (datetime_now env (ticks w))) \<noteq> None
                 \<or> shutil_copy2 env (os_path_join env dp file)
                      (os_path_join env bp (datetime_now env (ticks w))) \<noteq> None))"
  using assms
  by (auto simp: process_file_def logger_def Let_def split: option.splits)


lemma process_file_cases:
  assumes "process_file env bn dp file (n, bp) w = (r, w')"
  shows "(r = Inr (n, bp) \<and> (\<exists>l. w' = w\<lparr>log_lines := l\<rparr>))
       \<or> ((\<exists>e. r = Inl e) \<and> copies w' = copies w \<and> state w' = state w \<and> config w' = config w)
       \<or> (\<exists>m. os_getmtime env (os_path_join env dp file) = Inr m
              \<and> (\<forall>stored. state w file = Some stored \<longrightarrow> stored < m)
              \<and> r = Inr (n + 1, os_path_join env bp (datetime_now env (ticks w)))
              \<and> copies w' = copies w @ [(os_path_join env dp file,
                                         os_path_join env bp (datetime_now env (ticks w)))]
              \<and> state w' = (state w)(file \<mapsto> m)
              \<and> ticks w' = Suc (ticks w) \<and> config w' = config w)"
proof (cases "endswith file ''.sl2''")
  case False
  with assms have "r = Inr (n, bp)" "w' = w" by (simp_all add: process_file_other)
  then have "r = Inr (n, bp) \<and> w' = w\<lparr>log_lines := log_lines w\<rparr>" by simp
  then show ?thesis by blast
next
  case sl2: True
  show ?thesis
  proof (cases "os_getmtime env (os_path_join env dp file)")
    case (Inl e)
    with sl2 assms show ?thesis by (auto simp: process_file_mtime_raises)
  next
    case (Inr m)
    show ?thesis
    proof (cases "\<exists>stored. state w file = Some stored \<and> m \<le> stored")
      case True
      then obtain stored where "state w file = Some stored" "m \<le> stored" by blast
      with sl2 Inr assms have "r = Inr (n, bp)" "w' = logger INFO (Skipping file) w"
        by (simp_all add: process_file_skip)
      then have "r = Inr (n, bp) \<and> w' = w\<lparr>log_lines := log_lines w @ [(INFO, Skipping file)]\<rparr>"
        by (simp add: logger_def)
      then show ?thesis by blast
    next
      case False
      then have ch: "state w file = None \<or> (\<exists>stored. state w file = Some stored \<and> stored < m)"
        by (cases "state w file") (auto simp: not_le)
      then have "\<forall>stored. state w file = Some stored \<longrightarrow> stored < m" by auto
      with process_file_changed [OF sl2 Inr ch assms] Inr show ?thesis by blast
    qed
  qed
qed

lemma walk_inv:
  assumes step: "\<And>dp f v w v' w'. I v w \<Longrightarrow> process_file env bn dp f v w = (Inr v', w') \<Longrightarrow> I v' w'"
      and fail: "\<And>dp f v w e w'. I v w \<Longrightarrow> process_file env bn dp f v w = (Inl e, w') \<Longrightarrow> J w'"
      and IJ: "\<And>v w. I v w \<Longrightarrow> J w"
      and init: "I v w"
      and run: "for_each (process_root env bn) triples v w = (r, w')"
  shows "case r of Inr v' \<Rightarrow> I v' w' | Inl e \<Rightarrow> J w'"
proof -
  have dir: "case r of Inr v' \<Rightarrow> I v' w' | Inl e \<Rightarrow> J w'"
    if "I v w" "process_dir env bn rd d v w = (r, w')" for rd d v w r w'
  proof (cases "isdigit d")
    case False
    with that show ?thesis by (auto simp: process_dir_def)
  next
    case True
    show ?thesis
    proof (cases "os_listdir env (os_path_join env rd d)")
      case (Inl e)
      with True that show ?thesis by (auto simp: process_dir_def intro: IJ)
    next
      case (Inr files)
      with True that(2)
      have fe: "for_each (process_file env bn (os_path_join env rd d)) files v w = (r, w')"
        by (simp add: process_dir_def)
      show ?thesis
        by (rule for_each_inv [where I = I and J = J, OF _ _ that(1) fe]) (auto intro: step fail)
    qed
  qed
  have root: "case r of Inr v' \<Rightarrow> I v' w' | Inl e \<Rightarrow> J w'"
    if i: "I v w" and p: "process_root env bn tr v w = (r, w')" for tr v w r w'
  proof -
    obtain rd dirs files where tr: "tr = (rd, dirs, files)" by (cases tr)
    with p have fe: "for_each (process_dir env bn rd) dirs v w = (r, w')"
      by (simp add: process_root_def)
    show ?thesis
    proof (rule for_each_inv [where I = I and J = J, OF _ _ i fe])
      show "I v' w'" if "I v w" "process_dir env bn rd x v w = (Inr v', w')" for x v w v' w'
        using dir [OF that] by simp
      show "J w'" if "I v w" "process_dir env bn rd x v w = (Inl e, w')" for x v w e w'
        using dir [OF that] by simp
    qed
  qed
  show ?thesis
  proof (rule for_each_inv [where I = I and J = J, OF _ _ init run])
    show "I v' w'" if "I v w" "process_root env bn x v w = (Inr v', w')" for x v w v' w'
      using root [OF that] by simp
    show "J w'" if "I v w" "process_root env bn x v w = (Inl e, w')" for x v w e w'
      using root [OF that] by simp
  qed
qed

lemma engine_inv:
  assumes step: "\<And>bn dp f v w v' w'. I v w \<Longrightarrow> process_file env bn dp f v w = (Inr v', w') \<Longrightarrow> I v' w'"
      and fail: "\<And>bn dp f v w e w'. I v w \<Longrightarrow> process_file env bn dp f v w = (Inl e, w') \<Longrightarrow> J w'"
      and IJ: "\<And>v w. I v w \<Longrightarrow> J w"
      and init: "\<And>v. I v w"
      and run: "process_source_directory env sp w = (r, w')"
  shows "J w'"
proof (cases "entry_paths env sp w")
  case (Inl e)
  with run have "w' = w" by (simp add: process_source_directory_def)
  with init IJ show ?thesis by blast
next
  case (Inr t)
  obtain path bn base where t: "t = (path, bn, base)" by (cases t)
  obtain r1 w1 where f: "for_each (process_root env bn) (os_walk env path) (0, base) w = (r1, w1)"
    by (cases "for_each (process_root env bn) (os_walk env path) (0, base) w")
  with run Inr t have w': "w' = w1"
    by (auto simp: process_source_directory_def split: sum.splits prod.splits)
  have "case r1 of Inr v' \<Rightarrow> I v' w1 | Inl e \<Rightarrow> J w1"
    by (rule walk_inv [where I = I and J = J, OF _ _ _ init f]) (auto intro: step fail IJ)
  with w' show ?thesis by (cases r1) (auto intro: IJ)
qed

lemma process_file_mono:
  "process_file env bn dp f v w = (r, w') \<Longrightarrow> le_state (state w) (state w')"
proof -
  assume a: "process_file env bn dp f v w = (r, w')"
  obtain n bp where v: "v = (n, bp)" by (cases v)
  from process_file_cases [OF a [unfolded v]] show ?thesis
    by (auto simp: le_state_refl intro!: le_state_update)
qed

lemma process_file_mono_from:
  "le_state s (state w) \<Longrightarrow> process_file env bn dp f v w = (r, w') \<Longrightarrow> le_state s (state w')"
  by (blast intro: le_state_trans process_file_mono)

lemma process_source_directory_mono:
  assumes "process_source_directory env sp w = (r, w')"
  shows "le_state (state w) (state w')"
  by (rule engine_inv [where I = "\<lambda>v w1. le_state (state w) (state w1)"
        and J = "\<lambda>w1. le_state (state w) (state w1)", OF _ _ _ _ assms])
     (auto intro: process_file_mono_from le_state_refl)

lemma process_file_config:
  "process_file env bn dp f v w = (r, w') \<Longrightarrow> config w' = config w"
proof -
  assume a: "process_file env bn dp f v w = (r, w')"
  obtain n bp where v: "v = (n, bp)" by (cases v)
  from process_file_cases [OF a [unfolded v]] show ?thesis by auto
qed

lemma process_source_directory_config:
  assumes "process_source_directory env sp w = (r, w')"
  shows "config w' = config w"
  by (rule engine_inv [where I = "\<lambda>v w1. config w1 = config w"
        and J = "\<lambda>w1. config w1 = config w", OF _ _ _ _ assms])
     (auto dest: process_file_config)

section \<open>The state mapping only grows\<close>

text \<open>
  C10: whatever a call of the engine returns, a count or an exception, every key the
  state mapping had before the call is still a key after it, with a value that is not
  smaller; and a single step on a file either leaves the mapping alone or sets the
  file's entry to its modification time, which is strictly greater than the value it
  replaces, if there was one.
\<close>

theorem state_grows_monotonically:
  "(process_source_directory env source_path w = (r, w') \<longrightarrow>
      (\<forall>k v. state w k = Some v \<longrightarrow> (\<exists>v'. state w' k = Some v' \<and> v \<le> v')))
   \<and> (process_file env base_name dir_path file vars w1 = (r1, w1') \<longrightarrow>
        state w1' = state w1
        \<or> (\<exists>m. state w1' = (state w1)(file \<mapsto> m)
                \<and> (\<forall>old. state w1 file = Some old \<longrightarrow> old < m)))"
proof (intro conjI impI)
  assume "process_source_directory env source_path w = (r, w')"
  then have "le_state (state w) (state w')" by (rule process_source_directory_mono)
  then show "\<forall>k v. state w k = Some v \<longrightarrow> (\<exists>v'. state w' k = Some v' \<and> v \<le> v')"
    by (simp add: le_state_def)
next
  assume a: "process_file env base_name dir_path file vars w1 = (r1, w1')"
  obtain n bp where v: "vars = (n, bp)" by (cases vars)
  from process_file_cases [OF a [unfolded v]]
  show "state w1' = state w1
        \<or> (\<exists>m. state w1' = (state w1)(file \<mapsto> m)
                \<and> (\<forall>old. state w1 file = Some old \<longrightarrow> old < m))"
    by auto
qed

theorem state_grows_monotonically_witness:
  "state world_seen5 ''A.sl2'' = Some 5
   \<and> fst (process_source_directory env_copy_fails entry_ds world_seen5) = Inl OSError
   \<and> (\<exists>v'. state (snd (process_source_directory env_copy_fails entry_ds world_seen5)) ''A.sl2''
              = Some v' \<and> 5 \<le> v')
   \<and> state (snd (process_source_directory env_copy_fails entry_ds world_seen5)) ''A.sl2''
       = Some 10"
proof -
  have s: "state world_seen5 ''A.sl2'' = Some 5" by code_simp
  have r: "fst (process_source_directory env_copy_fails entry_ds world_seen5) = Inl OSError"
    by code_simp
  have t: "state (snd (process_source_directory env_copy_fails entry_ds world_seen5)) ''A.sl2''
       = Some 10" by code_simp
  from state_grows_monotonically [THEN conjunct1, THEN mp, OF surjective_pairing,
      THEN spec, THEN spec, THEN mp, OF s]
  have "\<exists>v'. state (snd (process_source_directory env_copy_fails entry_ds world_seen5)) ''A.sl2''
              = Some v' \<and> 5 \<le> v'" .
  with s r t show ?thesis by (intro conjI)
qed

section \<open>Nested timestamp directories\<close>

lemma nested_dirs_Suc:
  "nested_dirs env base t (Suc k) = nested_dirs env base t k @ [nested_path env base t (Suc k)]"
  by (simp add: nested_dirs_def)

lemma length_nested_dirs: "length (nested_dirs env base t k) = k"
  by (simp add: nested_dirs_def)

lemma nested_path_longer:
  assumes "\<forall>p k. length p < length (os_path_join env p (datetime_now env k))"
  shows "i < j \<Longrightarrow> length (nested_path env base t i) < length (nested_path env base t j)"
proof (induction j)
  case 0
  then show ?case by simp
next
  case (Suc j)
  have step: "length (nested_path env base t j) < length (nested_path env base t (Suc j))"
    using assms by simp
  show ?case
  proof (cases "i = j")
    case True
    with step show ?thesis by simp
  next
    case False
    with Suc.prems have "i < j" by simp
    with Suc.IH step show ?thesis by (meson less_trans)
  qed
qed

lemma nested_dirs_nth:
  assumes "i < k"
  shows "nested_dirs env base t k ! i =
           os_path_join env (if i = 0 then base else nested_dirs env base t k ! (i - 1))
             (datetime_now env (t + i))"
proof (cases i)
  case 0
  with assms show ?thesis by (simp add: nested_dirs_def)
next
  case (Suc j)
  with assms have "j < k" by simp
  with assms Suc show ?thesis by (simp add: nested_dirs_def)
qed

lemma distinct_nested_dirs:
  assumes "\<forall>p k. length p < length (os_path_join env p (datetime_now env k))"
  shows "distinct (nested_dirs env base t k)"
proof -
  have "inj_on (\<lambda>i. nested_path env base t (Suc i)) (set [0..<k])"
  proof (rule inj_onI)
    fix x y assume e: "nested_path env base t (Suc x) = nested_path env base t (Suc y)"
    show "x = y"
    proof (rule ccontr)
      assume "x \<noteq> y"
      then consider "Suc x < Suc y" | "Suc y < Suc x" by linarith
      then show False
        using nested_path_longer [OF assms, of _ _ base t] e by cases (metis less_irrefl)+
    qed
  qed
  then show ?thesis by (simp add: nested_dirs_def distinct_map)
qed

lemma chain_inv_fail: "chain_inv env base t0 c0 v w \<Longrightarrow> chain_fail env base t0 c0 w"
  unfolding chain_inv_def chain_fail_def by blast

lemma chain_step:
  assumes i: "chain_inv env base t0 c0 v w"
      and p: "process_file env bn dp f v w = (r, w')"
  shows "case r of Inr v' \<Rightarrow> chain_inv env base t0 c0 v' w' | Inl e \<Rightarrow> chain_fail env base t0 c0 w'"
proof -
  obtain n bp where v: "v = (n, bp)" by (cases v)
  from i v obtain srcs where
    c: "copies w = c0 @ zip srcs (nested_dirs env base t0 (length srcs))"
    and n: "n = length srcs" and bp: "bp = nested_path env base t0 (length srcs)"
    and t: "ticks w = t0 + length srcs"
    unfolding chain_inv_def by auto
  from process_file_cases [OF p [unfolded v]]
  consider (quiet) l where "r = Inr (n, bp)" "w' = w\<lparr>log_lines := l\<rparr>"
    | (raised) e where "r = Inl e" "copies w' = copies w"
    | (copied) "r = Inr (n + 1, os_path_join env bp (datetime_now env (ticks w)))"
        "copies w' = copies w @ [(os_path_join env dp f,
                                  os_path_join env bp (datetime_now env (ticks w)))]"
        "ticks w' = Suc (ticks w)"
    by blast
  then show ?thesis
  proof cases
    case quiet
    with c n bp t show ?thesis unfolding chain_inv_def by auto
  next
    case raised
    with c show ?thesis unfolding chain_fail_def by auto
  next
    case copied
    let ?srcs = "srcs @ [os_path_join env dp f]"
    have np: "os_path_join env bp (datetime_now env (ticks w))
                = nested_path env base t0 (Suc (length srcs))"
      by (simp add: bp t)
    have "copies w' = c0 @ zip ?srcs (nested_dirs env base t0 (length ?srcs))"
      by (simp add: copied(2) c np nested_dirs_Suc length_nested_dirs)
    moreover have "n + 1 = length ?srcs" by (simp add: n)
    moreover have "ticks w' = t0 + length ?srcs" by (simp add: copied(3) t)
    moreover have "os_path_join env bp (datetime_now env (ticks w))
                     = nested_path env base t0 (length ?srcs)"
      using np by simp
    ultimately have "chain_inv env base t0 c0
        (n + 1, os_path_join env bp (datetime_now env (ticks w))) w'"
      unfolding chain_inv_def fst_conv snd_conv by blast
    with copied(1) show ?thesis by simp
  qed
qed

text \<open>
  C2: in one call of the engine on a source entry, with \<open>base\<close> the backup root joined
  with the sanitized name, the copies made by the call have as destinations the
  directories \<open>dests\<close>: the first is \<open>base\<close> joined with the first clock reading of the
  call, every later one is the previous destination joined with the next clock
  reading. The returned count is their number. When joining a timestamp to a path
  gives a longer path, as \<open>os.path.join\<close> does, no two of the destinations are equal.
\<close>

theorem nested_timestamp_directories:
  assumes ep: "entry_paths env source_path w = Inr (path, base_name, base)"
      and run: "process_source_directory env source_path w = (r, w')"
  shows "\<exists>srcs dests.
           dests = nested_dirs env base (ticks w) (length srcs)
           \<and> copies w' = copies w @ zip srcs dests
           \<and> (\<forall>n. r = Inr n \<longrightarrow> n = length srcs)
           \<and> (\<forall>i < length srcs.
                 dests ! i = os_path_join env (if i = 0 then base else dests ! (i - 1))
                               (datetime_now env (ticks w + i)))
           \<and> ((\<forall>p k. length p < length (os_path_join env p (datetime_now env k)))
                \<longrightarrow> distinct dests)"
proof -
  obtain r1 w1 where
    f: "for_each (process_root env base_name) (os_walk env path) (0, base) w = (r1, w1)"
    by (cases "for_each (process_root env base_name) (os_walk env path) (0, base) w")
  have i0: "chain_inv env base (ticks w) (copies w) (0, base) w"
    unfolding chain_inv_def by (intro exI [of _ "[]"]) (simp add: nested_dirs_def)
  have inv: "case r1 of Inr v' \<Rightarrow> chain_inv env base (ticks w) (copies w) v' w1
                      | Inl e \<Rightarrow> chain_fail env base (ticks w) (copies w) w1"
  proof (rule walk_inv [where I = "chain_inv env base (ticks w) (copies w)"
          and J = "chain_fail env base (ticks w) (copies w)", OF _ _ _ i0 f])
    show "chain_inv env base (ticks w) (copies w) v' w'"
      if "chain_inv env base (ticks w) (copies w) v wa"
        "process_file env base_name dp fa v wa = (Inr v', w')" for dp fa v wa v' w'
      using chain_step [OF that] by simp
    show "chain_fail env base (ticks w) (copies w) w'"
      if "chain_inv env base (ticks w) (copies w) v wa"
        "process_file env base_name dp fa v wa = (Inl e, w')" for dp fa v wa e w'
      using chain_step [OF that] by simp
    show "chain_fail env base (ticks w) (copies w) wa"
      if "chain_inv env base (ticks w) (copies w) v wa" for v wa
      using that by (rule chain_inv_fail)
  qed
  show ?thesis
  proof (cases r1)
    case (Inl e)
    with run ep f have "r = Inl e" "w' = w1" by (simp_all add: process_source_directory_def)
    with inv Inl show ?thesis
      unfolding chain_fail_def using distinct_nested_dirs nested_dirs_nth by auto
  next
    case (Inr v)
    obtain n bp where v: "v = (n, bp)" by (cases v)
    with Inr run ep f have "r = Inr n" "w' = w1" by (simp_all add: process_source_directory_def)
    with inv Inr v show ?thesis
      unfolding chain_inv_def using distinct_nested_dirs nested_dirs_nth by auto
  qed
qed

theorem nested_timestamp_directories_witness:
  "entry_paths env_ok entry_ds world_cfg = Inr (''S'', ''DS'', ''B/DS'')
   \<and> copies (snd (process_source_directory env_ok entry_ds world_cfg))
       = [(''S/1/A.sl2'', ''B/DS/2024_01_01__120000''),
          (''S/2/B.sl2'', ''B/DS/2024_01_01__120000/2024_01_01__120001'')]
   \<and> (\<exists>srcs. copies (snd (process_source_directory env_ok entry_ds world_cfg))
         = copies world_cfg @ zip srcs (nested_dirs env_ok ''B/DS'' (ticks world_cfg) (length srcs))
        \<and> fst (process_source_directory env_ok entry_ds world_cfg) = Inr (length srcs)
        \<and> distinct (nested_dirs env_ok ''B/DS'' (ticks world_cfg) (length srcs)))"
proof -
  have ep: "entry_paths env_ok entry_ds world_cfg = Inr (''S'', ''DS'', ''B/DS'')" by code_simp
  have c: "copies (snd (process_source_directory env_ok entry_ds world_cfg))
       = [(''S/1/A.sl2'', ''B/DS/2024_01_01__120000''),
          (''S/2/B.sl2'', ''B/DS/2024_01_01__120000/2024_01_01__120001'')]" by code_simp
  have j: "\<forall>p k. length p < length (os_path_join env_ok p (datetime_now env_ok k))"
    by (simp add: env_ok_def)
  have r: "fst (process_source_directory env_ok entry_ds world_cfg) = Inr 2"
    by code_simp
  from nested_timestamp_directories [OF ep surjective_pairing] j r
  have "\<exists>srcs. copies (snd (process_source_directory env_ok entry_ds world_cfg))
         = copies world_cfg @ zip srcs (nested_dirs env_ok ''B/DS'' (ticks world_cfg) (length srcs))
        \<and> fst (process_source_directory env_ok entry_ds world_cfg) = Inr (length srcs)
        \<and> distinct (nested_dirs env_ok ''B/DS'' (ticks world_cfg) (length srcs))"
    by auto
  with ep c show ?thesis by (intro conjI)
qed

section \<open>Loading the state file\<close>

lemma load_state_file_absent:
  "state_file w = Inl FileNotFoundError \<Longrightarrow> load_state_file w = Inr Map.empty"
  by (simp add: load_state_file_def)

lemma load_state_file_corrupt:
  "state_file w = Inl JSONDecodeError \<Longrightarrow> load_state_file w = Inl JSONDecodeError"
  by (simp add: load_state_file_def)

lemma load_state_file_parsed:
  "state_file w = Inr st \<Longrightarrow> load_state_file w = Inr st"
  by (simp add: load_state_file_def)

lemma init_state_raises:
  assumes "setup_logger env = None" "load_state_file w0 = Inl e"
  shows "init env w0 =
           (Some e, logger INFO StartingBackup
              (w0\<lparr>load_failed := False, backup_failed := False, state := Map.empty,
                   config := None\<rparr>))"
proof -
  have "load_state_file (w0\<lparr>load_failed := False, backup_failed := False, state := Map.empty,
                   config := None\<rparr>) = Inl e"
    using assms(2) by (simp add: load_state_file_def)
  with assms(1) show ?thesis by (simp add: init_def Let_def)
qed

text \<open>
  C9: the state loader returns the empty mapping when the state file is absent, and
  the parsed mapping when there is one; it raises nothing and logs nothing then. On a
  state file that does not parse it raises the parse error, which leaves the
  constructor: the program ends with that exception before any backup pass, with no
  copy made, the state file untouched and no toast.
\<close>

theorem state_load:
  "(state_file w = Inl FileNotFoundError \<longrightarrow> load_state_file w = Inr Map.empty)
   \<and> (state_file w = Inr st \<longrightarrow> load_state_file w = Inr st)
   \<and> (state_file w = Inl JSONDecodeError \<longrightarrow>
        load_state_file w = Inl JSONDecodeError
        \<and> (setup_logger env = None \<longrightarrow>
              fst (init env w) = Some JSONDecodeError
              \<and> fst (main env w) = Inl JSONDecodeError
              \<and> copies (snd (main env w)) = copies w
              \<and> state_file (snd (main env w)) = state_file w
              \<and> toast_calls (snd (main env w)) = toast_calls w))"
proof (intro conjI impI)
  assume "state_file w = Inl FileNotFoundError"
  then show "load_state_file w = Inr Map.empty" by (rule load_state_file_absent)
next
  assume "state_file w = Inr st"
  then show "load_state_file w = Inr st" by (rule load_state_file_parsed)
next
  assume "state_file w = Inl JSONDecodeError"
  then show "load_state_file w = Inl JSONDecodeError" by (rule load_state_file_corrupt)
next
  assume c: "state_file w = Inl JSONDecodeError" and l: "setup_logger env = None"
  note i = init_state_raises [OF l load_state_file_corrupt [OF c]]
  show "fst (init env w) = Some JSONDecodeError" by (simp add: i)
  show "fst (main env w) = Inl JSONDecodeError" by (simp add: main_def i)
  show "copies (snd (main env w)) = copies w" by (simp add: main_def i logger_def)
  show "state_file (snd (main env w)) = state_file w" by (simp add: main_def i logger_def)
  show "toast_calls (snd (main env w)) = toast_calls w" by (simp add: main_def i logger_def)
qed

theorem state_load_witness:
  "state_file world0 = Inl FileNotFoundError \<and> load_state_file world0 = Inr Map.empty
   \<and> state_file world_corrupt = Inl JSONDecodeError \<and> setup_logger env_ok = None
   \<and> load_state_file world_corrupt = Inl JSONDecodeError
   \<and> fst (main env_ok world_corrupt) = Inl JSONDecodeError
   \<and> copies (snd (main env_ok world_corrupt)) = []"
proof -
  have a: "state_file world0 = Inl FileNotFoundError" by (simp add: world0_def)
  have c: "state_file world_corrupt = Inl JSONDecodeError" by (simp add: world_corrupt_def)
  have l: "setup_logger env_ok = None" by (simp add: env_ok_def)
  have k: "copies world_corrupt = []" by (simp add: world_corrupt_def world0_def)
  from state_load [of world0, THEN conjunct1] a
  have 1: "load_state_file world0 = Inr Map.empty" by simp
  from state_load [of world_corrupt _ env_ok, THEN conjunct2, THEN conjunct2] c l k
  have 2: "load_state_file world_corrupt = Inl JSONDecodeError
   \<and> fst (main env_ok world_corrupt) = Inl JSONDecodeError
   \<and> copies (snd (main env_ok world_corrupt)) = []" by simp
  from a 1 c l 2 show ?thesis by (intro conjI) simp_all
qed

section \<open>Configuration load failures\<close>

lemma load_config_file_not_found:
  "open_config env = Inl FileNotFoundError \<Longrightarrow>
     load_config_file env w =
       (Inr None, notify env ''Souls Backup'' CouldNotFindConfig (logger ERROR CouldNotFindConfig w))"
  by (simp add: load_config_file_def)

lemma load_config_file_parse_error:
  "open_config env = Inl JSONDecodeError \<Longrightarrow>
     load_config_file env w =
       (Inr None, notify env ''Souls Backup'' CouldNotParseConfig (logger ERROR CouldNotParseConfig w))"
  by (simp add: load_config_file_def)

lemma load_config_file_malformed:
  assumes "open_config env = Inr (JObj kvs)" "malformed_object kvs"
  shows "\<exists>m. load_config_file env w = (Inr None, (logger ERROR m w)\<lparr>load_failed := True\<rparr>)"
proof (cases "dict_get kvs ''source_directories''")
  case (JArr entries)
  with assms(2) have "\<not> truthy (dict_get kvs ''backup_directory'') \<or> list_ex bad_entry entries"
    by (simp add: malformed_object_def)
  with assms(1) JArr show ?thesis by (auto simp: load_config_file_def)
qed (use assms(1) in \<open>auto simp: load_config_file_def\<close>)

lemma load_config_file_not_object:
  assumes "open_config env = Inr j" "\<forall>kvs. j \<noteq> JObj kvs"
  shows "load_config_file env w = (Inl AttributeError, w)"
  using assms by (cases j) (simp_all add: load_config_file_def)

lemma toast_calls_notify:
  "toast_calls (notify env t m w) = toast_calls w @ [(t, m)]"
  by (simp add: notify_def logger_def Let_def split: option.splits)

lemma init_config_none:
  assumes "setup_logger env = None" "load_state_file w0 = Inr st"
      and "\<And>w. load_config_file env w = (Inr None, f w)"
  shows "init env w0 =
           (None, (f ((logger INFO StartingBackup
              (w0\<lparr>load_failed := False, backup_failed := False, state := Map.empty,
                   config := None\<rparr>))\<lparr>state := st\<rparr>))\<lparr>load_failed := True\<rparr>)"
proof -
  have "load_state_file (w0\<lparr>load_failed := False, backup_failed := False, state := Map.empty,
                   config := None\<rparr>) = Inr st"
    using assms(2) by (simp add: load_state_file_def)
  with assms(1,3) show ?thesis by (simp add: init_def Let_def)
qed

lemma run_disabledI:
  "init env w0 = (None, w) \<Longrightarrow> load_failed w \<Longrightarrow> run_disabled env w0"
  by (simp add: run_disabled_def perform_backup_def)

text \<open>
  C3 as the code has it: when the logger is set up and the state file loads, a missing
  configuration file and one that does not parse each disable the run and ask for a
  toast; a configuration that parses to an object and is malformed (no list of source
  directories, no backup directory, or a bad entry) disables the run and logs an
  error, and no toast is asked for.
\<close>

theorem config_load_failures:
  assumes l: "setup_logger env = None" and s: "load_state_file w0 = Inr st"
  shows "(open_config env = Inl FileNotFoundError \<longrightarrow>
            run_disabled env w0
            \<and> toast_calls (snd (init env w0)) = toast_calls w0 @ [(''Souls Backup'', CouldNotFindConfig)])
       \<and> (open_config env = Inl JSONDecodeError \<longrightarrow>
            run_disabled env w0
            \<and> toast_calls (snd (init env w0)) = toast_calls w0 @ [(''Souls Backup'', CouldNotParseConfig)])
       \<and> (\<forall>kvs. open_config env = Inr (JObj kvs) \<and> malformed_object kvs \<longrightarrow>
            run_disabled env w0
            \<and> toast_calls (snd (init env w0)) = toast_calls w0
            \<and> (\<exists>m. (ERROR, m) \<in> set (log_lines (snd (init env w0)))))"
proof (intro conjI impI allI)
  assume a: "open_config env = Inl FileNotFoundError"
  note i = init_config_none [OF l s load_config_file_not_found [OF a]]
  show "run_disabled env w0" by (rule run_disabledI [OF i]) simp
  show "toast_calls (snd (init env w0)) = toast_calls w0 @ [(''Souls Backup'', CouldNotFindConfig)]"
    by (simp add: i toast_calls_notify logger_def)
next
  assume a: "open_config env = Inl JSONDecodeError"
  note i = init_config_none [OF l s load_config_file_parse_error [OF a]]
  show "run_disabled env w0" by (rule run_disabledI [OF i]) simp
  show "toast_calls (snd (init env w0)) = toast_calls w0 @ [(''Souls Backup'', CouldNotParseConfig)]"
    by (simp add: i toast_calls_notify logger_def)
next
  fix kvs assume a: "open_config env = Inr (JObj kvs) \<and> malformed_object kvs"
  let ?w = "(logger INFO StartingBackup
              (w0\<lparr>load_failed := False, backup_failed := False, state := Map.empty,
                   config := None\<rparr>))\<lparr>state := st\<rparr>"
  from a load_config_file_malformed [of env kvs ?w] obtain m where
    lc: "load_config_file env ?w = (Inr None, (logger ERROR m ?w)\<lparr>load_failed := True\<rparr>)"
    by blast
  have ls: "load_state_file (w0\<lparr>load_failed := False, backup_failed := False, state := Map.empty,
                   config := None\<rparr>) = Inr st"
    using s by (simp add: load_state_file_def)
  have i: "init env w0 = (None, (logger ERROR m ?w)\<lparr>load_failed := True\<rparr>)"
    using l ls lc by (simp add: init_def Let_def)
  show "run_disabled env w0" by (rule run_disabledI [OF i]) simp
  show "toast_calls (snd (init env w0)) = toast_calls w0" by (simp add: i logger_def)
  show "\<exists>m. (ERROR, m) \<in> set (log_lines (snd (init env w0)))"
    by (rule exI [of _ m]) (simp add: i logger_def)
qed

theorem config_load_failures_witness:
  "setup_logger env_no_config = None \<and> load_state_file world0 = Inr Map.empty
   \<and> open_config env_no_config = Inl FileNotFoundError
   \<and> run_disabled env_no_config world0
   \<and> toast_calls (snd (init env_no_config world0)) = [(''Souls Backup'', CouldNotFindConfig)]
   \<and> setup_logger env_malformed = None
   \<and> open_config env_malformed = Inr (JObj [(''source_directories'', JArr [entry_ds])])
   \<and> malformed_object [(''source_directories'', JArr [entry_ds])]
   \<and> run_disabled env_malformed world0
   \<and> toast_calls (snd (init env_malformed world0)) = []"
proof -
  have l1: "setup_logger env_no_config = None" by (simp add: env_no_config_def env_ok_def)
  have l2: "setup_logger env_malformed = None" by (simp add: env_malformed_def env_ok_def)
  have s: "load_state_file world0 = Inr Map.empty"
    by (simp add: load_state_file_def world0_def)
  have o1: "open_config env_no_config = Inl FileNotFoundError" by (simp add: env_no_config_def)
  have o2: "open_config env_malformed = Inr (JObj [(''source_directories'', JArr [entry_ds])])"
    by (simp add: env_malformed_def)
  have m: "malformed_object [(''source_directories'', JArr [entry_ds])]"
    by (simp add: malformed_object_def dict_get_def)
  have t: "toast_calls world0 = []" by (simp add: world0_def)
  from config_load_failures [OF l1 s, THEN conjunct1] o1 t
  have a: "run_disabled env_no_config world0
   \<and> toast_calls (snd (init env_no_config world0)) = [(''Souls Backup'', CouldNotFindConfig)]"
    by simp
  from config_load_failures [OF l2 s, THEN conjunct2, THEN conjunct2, THEN spec, THEN mp,
      OF conjI [OF o2 m]] t
  have b: "run_disabled env_malformed world0
   \<and> toast_calls (snd (init env_malformed world0)) = []" by simp
  from l1 s o1 a l2 o2 m b show ?thesis by (intro conjI) simp_all
qed

text \<open>
  C3 as stated fails on a configuration without \<open>backup_directory\<close>: the run is disabled
  and the error logged, and no toast is asked for.
\<close>

theorem malformed_config_not_notified:
  "open_config env_malformed = Inr (JObj [(''source_directories'', JArr [entry_ds])])
   \<and> fst (init env_malformed world0) = None
   \<and> load_failed (snd (init env_malformed world0))
   \<and> log_lines (snd (init env_malformed world0))
       = [(INFO, StartingBackup), (ERROR, MalformedConfig)]
   \<and> toast_calls (snd (init env_malformed world0)) = []"
  by code_simp

text \<open>
  A configuration that parses to something else than an object (an array, a string, a
  number) is not handled by the loader: \<open>config.get\<close> raises AttributeError, which
  leaves the constructor, so the program ends before any backup pass with neither an
  error line nor a toast.
\<close>

lemma config_not_object_raises:
  assumes "setup_logger env = None" "load_state_file w0 = Inr st"
      and "open_config env = Inr j" "\<forall>kvs. j \<noteq> JObj kvs"
  shows "fst (init env w0) = Some AttributeError
       \<and> fst (main env w0) = Inl AttributeError
       \<and> toast_calls (snd (main env w0)) = toast_calls w0
       \<and> log_lines (snd (main env w0)) = log_lines w0 @ [(INFO, StartingBackup)]"
proof -
  have ls: "load_state_file (w0\<lparr>load_failed := False, backup_failed := False,
              state := Map.empty, config := None\<rparr>) = Inr st"
    using assms(2) by (simp add: load_state_file_def)
  have i: "init env w0 = (Some AttributeError,
             (logger INFO StartingBackup (w0\<lparr>load_failed := False, backup_failed := False,
                state := Map.empty, config := None\<rparr>))\<lparr>state := st\<rparr>)"
    using assms(1) ls load_config_file_not_object [OF assms(3,4)]
    by (simp add: init_def Let_def)
  show ?thesis by (simp add: i main_def logger_def)
qed

section \<open>Partial failure isolation\<close>

lemma subscript_name:
  "\<not> bad_entry sp \<Longrightarrow> \<exists>name. subscript sp ''name'' = Inr name"
proof (cases sp)
  case (JObj kvs)
  assume "\<not> bad_entry sp"
  with JObj have "truthy (dict_get kvs ''name'')" by simp
  then have "map_of kvs ''name'' \<noteq> None" by (auto simp: dict_get_def split: option.splits)
  with JObj show ?thesis by auto
qed simp_all

lemma backup_entry_raised:
  assumes "\<not> bad_entry sp" "process_source_directory env sp w = (Inl e, w1)"
  shows "\<exists>name. \<forall>vars. backup_entry env sp vars w
                         = (Inr vars, logger ERROR (FailedToProcess name e) w1)"
proof -
  from subscript_name [OF assms(1)] obtain name where n: "subscript sp ''name'' = Inr name" ..
  have "backup_entry env sp vars w = (Inr vars, logger ERROR (FailedToProcess name e) w1)"
    for vars
    by (cases vars) (simp add: backup_entry_def assms(2) n)
  then show ?thesis by blast
qed

lemma backup_entry_completed:
  assumes "process_source_directory env sp w = (Inr n, w1)"
  shows "backup_entry env sp (p, b) w = (Inr (p + 1, b + n), w1)"
  using assms by (simp add: backup_entry_def)

lemma backup_loop_valid:
  assumes "\<forall>sp \<in> set sps. \<not> bad_entry sp"
  shows "\<exists>wL. for_each (backup_entry env) sps (p, b) w =
           (Inr (p + completed (entry_results env sps w),
                 b + backed_up (entry_results env sps w)), wL)"
  using assms
proof (induction sps arbitrary: p b w)
  case Nil
  then show ?case by (simp add: completed_def backed_up_def)
next
  case (Cons sp sps)
  then have v: "\<not> bad_entry sp" and vs: "\<forall>sp \<in> set sps. \<not> bad_entry sp" by simp_all
  obtain r w1 where pr: "process_source_directory env sp w = (r, w1)"
    by (cases "process_source_directory env sp w")
  show ?case
  proof (cases r)
    case (Inl e)
    from backup_entry_raised [OF v pr [unfolded Inl]] obtain name where
      be: "\<And>vars. backup_entry env sp vars w
             = (Inr vars, logger ERROR (FailedToProcess name e) w1)"
      by blast
    from Cons.IH [OF vs, of p b "logger ERROR (FailedToProcess name e) w1"]
    show ?thesis by (simp add: be pr Inl completed_def backed_up_def)
  next
    case (Inr n)
    note be = backup_entry_completed [OF pr [unfolded Inr]]
    from Cons.IH [OF vs, of "p + 1" "b + n" w1]
    show ?thesis by (simp add: be pr Inr completed_def backed_up_def add.assoc)
  qed
qed

text \<open>
  C4 as the code has it, for a pass with a loaded and validated configuration. An
  exception of the engine on one entry is logged as an error and the loop goes on with
  the same counters, so every entry is tried. After the loop, when no entry completed
  the pass returns False and writes nothing; when at least one completed (also with
  zero files copied) the state file is written: if the write succeeds the state file
  holds the state mapping and the pass returns True, and if the write raises the
  failure is logged, a toast is asked for and the pass returns False.
\<close>

theorem partial_failure_isolation:
  assumes lf: "\<not> load_failed w"
      and cf: "config w = Some c"
      and sd: "subscript c ''source_directories'' = Inr (JArr sps)"
      and ok: "\<forall>sp \<in> set sps. \<not> bad_entry sp"
  shows "(\<forall>sp \<in> set sps. \<forall>vars w1 e w2.
            process_source_directory env sp w1 = (Inl e, w2) \<longrightarrow>
            (\<exists>name. backup_entry env sp vars w1
                      = (Inr vars, logger ERROR (FailedToProcess name e) w2)))
       \<and> length (entry_results env sps w) = length sps
       \<and> (\<exists>wL. for_each (backup_entry env) sps (0, 0) w
                  = (Inr (completed (entry_results env sps w),
                          backed_up (entry_results env sps w)), wL)
              \<and> perform_backup env w =
                  (if completed (entry_results env sps w) = 0 then (Some False, wL)
                   else case write_state env (state wL) of
                          None \<Rightarrow>
                            (Some True,
                             logger INFO (ProcessComplete (backed_up (entry_results env sps w))
                                            (completed (entry_results env sps w)))
                               (wL\<lparr>state_file := Inr (state wL)\<rparr>))
                        | Some (e, left) \<Rightarrow>
                            (Some False,
                             (notify env ''Souls Backup'' (BackupFailed e)
                                (logger ERROR (BackupFailed e) (wL\<lparr>state_file := left\<rparr>)))
                               \<lparr>backup_failed := True\<rparr>)))"
proof (intro conjI)
  show "\<forall>sp \<in> set sps. \<forall>vars w1 e w2.
            process_source_directory env sp w1 = (Inl e, w2) \<longrightarrow>
            (\<exists>name. backup_entry env sp vars w1
                      = (Inr vars, logger ERROR (FailedToProcess name e) w2))"
    using ok backup_entry_raised by blast
next
  show "length (entry_results env sps w) = length sps"
    by (induction sps arbitrary: w) simp_all
next
  from backup_loop_valid [OF ok, of env 0 0 w] obtain wL where
    loop: "for_each (backup_entry env) sps (0, 0) w
             = (Inr (completed (entry_results env sps w),
                     backed_up (entry_results env sps w)), wL)"
    by auto
  have "perform_backup env w =
          (if completed (entry_results env sps w) = 0 then (Some False, wL)
           else case write_state env (state wL) of
                  None \<Rightarrow>
                    (Some True,
                     logger INFO (ProcessComplete (backed_up (entry_results env sps w))
                                    (completed (entry_results env sps w)))
                       (wL\<lparr>state_file := Inr (state wL)\<rparr>))
                | Some (e, left) \<Rightarrow>
                    (Some False,
                     (notify env ''Souls Backup'' (BackupFailed e)
                        (logger ERROR (BackupFailed e) (wL\<lparr>state_file := left\<rparr>)))
                       \<lparr>backup_failed := True\<rparr>))"
    using lf cf sd loop
    by (simp add: perform_backup_def backup_body_def save_state_file_def
             split: option.splits prod.splits)
  with loop show "\<exists>wL. for_each (backup_entry env) sps (0, 0) w
                  = (Inr (completed (entry_results env sps w),
                          backed_up (entry_results env sps w)), wL)
              \<and> perform_backup env w =
                  (if completed (entry_results env sps w) = 0 then (Some False, wL)
                   else case write_state env (state wL) of
                          None \<Rightarrow>
                            (Some True,
                             logger INFO (ProcessComplete (backed_up (entry_results env sps w))
                                            (completed (entry_results env sps w)))
                               (wL\<lparr>state_file := Inr (state wL)\<rparr>))
                        | Some (e, left) \<Rightarrow>
                            (Some False,
                             (notify env ''Souls Backup'' (BackupFailed e)
                                (logger ERROR (BackupFailed e) (wL\<lparr>state_file := left\<rparr>)))
                               \<lparr>backup_failed := True\<rparr>))"
    by blast
qed

text \<open>
  With two configured directories of which the first raises, the files of the second
  are copied and the state file holds their times.
\<close>

theorem partial_failure_isolation_witness:
  "\<not> load_failed world_two \<and> config world_two = Some config_two
   \<and> subscript config_two ''source_directories'' = Inr (JArr [entry_locked, entry_ds])
   \<and> \<not> bad_entry entry_locked \<and> \<not> bad_entry entry_ds
   \<and> entry_results env_two [entry_locked, entry_ds] world_two = [Inl OSError, Inr 2]
   \<and> fst (perform_backup env_two world_two) = Some True
   \<and> copies (snd (perform_backup env_two world_two))
       = [(''S/1/A.sl2'', ''B/DS/2024_01_01__120000''),
          (''S/2/B.sl2'', ''B/DS/2024_01_01__120000/2024_01_01__120001'')]
   \<and> (case state_file (snd (perform_backup env_two world_two)) of
         Inl e \<Rightarrow> [] | Inr st \<Rightarrow> [st ''A.sl2'', st ''B.sl2'']) = [Some 10, Some 20]"
proof -
  have lf: "\<not> load_failed world_two" by code_simp
  have cf: "config world_two = Some config_two" by code_simp
  have sd: "subscript config_two ''source_directories'' = Inr (JArr [entry_locked, entry_ds])"
    by code_simp
  have b1: "\<not> bad_entry entry_locked" by code_simp
  have b2: "\<not> bad_entry entry_ds" by code_simp
  have ok: "\<forall>sp \<in> set [entry_locked, entry_ds]. \<not> bad_entry sp" using b1 b2 by simp
  have rs: "entry_results env_two [entry_locked, entry_ds] world_two = [Inl OSError, Inr 2]"
    by code_simp
  have ws: "\<And>st. write_state env_two st = None" by (simp add: env_two_def env_ok_def)
  have cp: "copies (snd (perform_backup env_two world_two))
       = [(''S/1/A.sl2'', ''B/DS/2024_01_01__120000''),
          (''S/2/B.sl2'', ''B/DS/2024_01_01__120000/2024_01_01__120001'')]" by code_simp
  have sf: "(case state_file (snd (perform_backup env_two world_two)) of
         Inl e \<Rightarrow> [] | Inr st \<Rightarrow> [st ''A.sl2'', st ''B.sl2'']) = [Some 10, Some 20]"
    by code_simp
  have one: "completed [Inl OSError, Inr 2] = 1" by (simp add: completed_def)
  from partial_failure_isolation [OF lf cf sd ok, of env_two,
      THEN conjunct2, THEN conjunct2, unfolded rs one ws]
  have "fst (perform_backup env_two world_two) = Some True"
    by auto
  with lf cf sd b1 b2 rs cp sf show ?thesis by (intro conjI)
qed

text \<open>
  C4 as stated fails when the state file cannot be written: the only entry completes
  with two files copied, and the pass reports failure with no state file persisted.
\<close>

theorem write_failure_reports_failure:
  "entry_results env_write_fails [entry_ds] world_one = [Inr 2]
   \<and> fst (perform_backup env_write_fails world_one) = Some False
   \<and> fst (main env_write_fails world0) = Inr (Some False)
   \<and> isl (state_file (snd (main env_write_fails world0)))
   \<and> toast_calls (snd (main env_write_fails world0)) = [(''Souls Backup'', BackupFailed OSError)]"
  by code_simp

section \<open>A second pass over unchanged files\<close>

lemma process_file_settled:
  assumes sl2: "endswith f ''.sl2''" and mt: "os_getmtime env (os_path_join env dp f) = Inr m"
      and run: "process_file env bn dp f v w = (Inr v', w')"
  shows "\<exists>x. state w' f = Some x \<and> m \<le> x"
proof -
  obtain n bp where v: "v = (n, bp)" by (cases v)
  show ?thesis
  proof (cases "\<exists>stored. state w f = Some stored \<and> m \<le> stored")
    case True
    then obtain stored where s: "state w f = Some stored" "m \<le> stored" by blast
    from process_file_skip [OF sl2 mt s] run v have "w' = logger INFO (Skipping f) w" by simp
    with s show ?thesis by (simp add: logger_def)
  next
    case False
    then have ch: "state w f = None \<or> (\<exists>stored. state w f = Some stored \<and> stored < m)"
      by (cases "state w f") (auto simp: not_le)
    from process_file_changed [OF sl2 mt ch run [unfolded v]]
    have "state w' = (state w)(f \<mapsto> m)" by auto
    then show ?thesis by simp
  qed
qed

lemma process_file_requiet:
  assumes run: "process_file env bn dp f v w = (Inr v', w')"
      and le: "le_state (state w') (state w2)"
  shows "\<exists>l. process_file env bn dp f v2 w2 = (Inr v2, w2\<lparr>log_lines := l\<rparr>)"
proof (cases "endswith f ''.sl2''")
  case False
  then have "process_file env bn dp f v2 w2 = (Inr v2, w2\<lparr>log_lines := log_lines w2\<rparr>)"
    by (simp add: process_file_other)
  then show ?thesis by blast
next
  case sl2: True
  show ?thesis
  proof (cases "os_getmtime env (os_path_join env dp f)")
    case (Inl e)
    from process_file_mtime_raises [OF sl2 Inl] run show ?thesis by simp
  next
    case (Inr m)
    from process_file_settled [OF sl2 Inr run] obtain x where "state w' f = Some x" "m \<le> x"
      by blast
    with le obtain y where y: "state w2 f = Some y" "m \<le> y"
      unfolding le_state_def by (meson order_trans)
    obtain n2 bp2 where v2: "v2 = (n2, bp2)" by (cases v2)
    from process_file_skip [OF sl2 Inr y]
    have "process_file env bn dp f v2 w2
            = (Inr v2, w2\<lparr>log_lines := log_lines w2 @ [(INFO, Skipping f)]\<rparr>)"
      by (simp add: v2 logger_def)
    then show ?thesis by blast
  qed
qed

lemma for_each_mono:
  assumes "\<And>x v w r w'. body x v w = (r, w') \<Longrightarrow> le_state (state w) (state w')"
      and "for_each body xs v w = (r, w')"
  shows "le_state (state w) (state w')"
  by (rule for_each_world_inv [where P = "\<lambda>w1. le_state (state w) (state w1)", OF _ _ assms(2)])
     (auto intro: le_state_refl le_state_trans assms(1))

lemma for_each_requiet:
  assumes mono: "\<And>x v w r w'. body x v w = (r, w') \<Longrightarrow> le_state (state w) (state w')"
      and req: "\<And>x v w v' w' v2 w2. body x v w = (Inr v', w') \<Longrightarrow> le_state (state w') (state w2)
                  \<Longrightarrow> \<exists>l. body x v2 w2 = (Inr v2, w2\<lparr>log_lines := l\<rparr>)"
      and run: "for_each body xs v w = (Inr v', w')"
      and le: "le_state (state w') (state w2)"
  shows "\<exists>l. for_each body xs v2 w2 = (Inr v2, w2\<lparr>log_lines := l\<rparr>)"
  using run le
proof (induction xs arbitrary: v w w2)
  case Nil
  have "for_each body [] v2 w2 = (Inr v2, w2\<lparr>log_lines := log_lines w2\<rparr>)" by simp
  then show ?case by blast
next
  case (Cons x xs)
  obtain r1 w1 where b: "body x v w = (r1, w1)" by (cases "body x v w")
  with Cons.prems(1) obtain v1 where r1: "r1 = Inr v1" by (cases r1) auto
  with b Cons.prems(1) have tail: "for_each body xs v1 w1 = (Inr v', w')" by simp
  have "le_state (state w1) (state w')" by (rule for_each_mono [OF mono tail])
  with Cons.prems(2) have "le_state (state w1) (state w2)" by (blast intro: le_state_trans)
  from req [OF b [unfolded r1] this] obtain l where
    b2: "body x v2 w2 = (Inr v2, w2\<lparr>log_lines := l\<rparr>)" by blast
  have "le_state (state w') (state (w2\<lparr>log_lines := l\<rparr>))" using Cons.prems(2) by simp
  from Cons.IH [OF tail this] obtain l' where
    "for_each body xs v2 (w2\<lparr>log_lines := l\<rparr>) = (Inr v2, w2\<lparr>log_lines := l'\<rparr>)" by auto
  with b2 have "for_each body (x # xs) v2 w2 = (Inr v2, w2\<lparr>log_lines := l'\<rparr>)" by simp
  then show ?case by blast
qed

lemma process_dir_mono:
  assumes "process_dir env bn rd d v w = (r, w')"
  shows "le_state (state w) (state w')"
proof (cases "isdigit d")
  case False
  with assms show ?thesis by (auto simp: process_dir_def le_state_refl)
next
  case True
  show ?thesis
  proof (cases "os_listdir env (os_path_join env rd d)")
    case (Inl e)
    with True assms show ?thesis by (auto simp: process_dir_def le_state_refl)
  next
    case (Inr files)
    with True assms
    have "for_each (process_file env bn (os_path_join env rd d)) files v w = (r, w')"
      by (simp add: process_dir_def)
    then show ?thesis by (rule for_each_mono [rotated]) (rule process_file_mono)
  qed
qed

lemma process_dir_requiet:
  assumes run: "process_dir env bn rd d v w = (Inr v', w')"
      and le: "le_state (state w') (state w2)"
  shows "\<exists>l. process_dir env bn rd d v2 w2 = (Inr v2, w2\<lparr>log_lines := l\<rparr>)"
proof (cases "isdigit d")
  case False
  then have "process_dir env bn rd d v2 w2 = (Inr v2, w2\<lparr>log_lines := log_lines w2\<rparr>)"
    by (simp add: process_dir_def)
  then show ?thesis by blast
next
  case True
  show ?thesis
  proof (cases "os_listdir env (os_path_join env rd d)")
    case (Inl e)
    with True run show ?thesis by (simp add: process_dir_def)
  next
    case (Inr files)
    with True run
    have fe: "for_each (process_file env bn (os_path_join env rd d)) files v w = (Inr v', w')"
      by (simp add: process_dir_def)
    have "\<exists>l. for_each (process_file env bn (os_path_join env rd d)) files v2 w2
               = (Inr v2, w2\<lparr>log_lines := l\<rparr>)"
      by (rule for_each_requiet [OF _ _ fe le]) (blast intro: process_file_mono process_file_requiet)+
    with True Inr show ?thesis by (simp add: process_dir_def)
  qed
qed

lemma process_root_mono:
  assumes "process_root env bn tr v w = (r, w')"
  shows "le_state (state w) (state w')"
proof -
  obtain rd dirs files where tr: "tr = (rd, dirs, files)" by (cases tr)
  with assms have "for_each (process_dir env bn rd) dirs v w = (r, w')"
    by (simp add: process_root_def)
  then show ?thesis by (rule for_each_mono [rotated]) (rule process_dir_mono)
qed

lemma process_root_requiet:
  assumes run: "process_root env bn tr v w = (Inr v', w')"
      and le: "le_state (state w') (state w2)"
  shows "\<exists>l. process_root env bn tr v2 w2 = (Inr v2, w2\<lparr>log_lines := l\<rparr>)"
proof -
  obtain rd dirs files where tr: "tr = (rd, dirs, files)" by (cases tr)
  with run have fe: "for_each (process_dir env bn rd) dirs v w = (Inr v', w')"
    by (simp add: process_root_def)
  have "\<exists>l. for_each (process_dir env bn rd) dirs v2 w2 = (Inr v2, w2\<lparr>log_lines := l\<rparr>)"
    by (rule for_each_requiet [OF _ _ fe le]) (blast intro: process_dir_mono process_dir_requiet)+
  with tr show ?thesis by (simp add: process_root_def)
qed

lemma entry_paths_config:
  "config w2 = config w \<Longrightarrow> entry_paths env sp w2 = entry_paths env sp w"
  unfolding entry_paths_def by (erule subst) (rule refl)

lemma process_source_directory_requiet:
  assumes run: "process_source_directory env sp w = (Inr n, w')"
      and le: "le_state (state w') (state w2)"
      and cf: "config w2 = config w"
  shows "\<exists>l. process_source_directory env sp w2 = (Inr 0, w2\<lparr>log_lines := l\<rparr>)"
proof (cases "entry_paths env sp w")
  case (Inl e)
  with run show ?thesis by (simp add: process_source_directory_def)
next
  case (Inr t)
  obtain path bn base where t: "t = (path, bn, base)" by (cases t)
  obtain r1 w1 where f: "for_each (process_root env bn) (os_walk env path) (0, base) w = (r1, w1)"
    by (cases "for_each (process_root env bn) (os_walk env path) (0, base) w")
  with run Inr t obtain v1 where r1: "r1 = Inr v1" and w1: "w1 = w'"
    by (cases r1) (auto simp: process_source_directory_def split: prod.splits)
  have "\<exists>l. for_each (process_root env bn) (os_walk env path) (0, base) w2
             = (Inr (0, base), w2\<lparr>log_lines := l\<rparr>)"
    by (rule for_each_requiet [OF _ _ f [unfolded r1 w1] le])
       (blast intro: process_root_mono process_root_requiet)+
  with Inr t entry_paths_config [OF cf, of env sp] show ?thesis
    by (auto simp: process_source_directory_def)
qed

lemma backup_entry_mono:
  assumes "backup_entry env sp v w = (r, w')"
  shows "le_state (state w) (state w')"
proof -
  obtain r1 w1 where p: "process_source_directory env sp w = (r1, w1)"
    by (cases "process_source_directory env sp w")
  from process_source_directory_mono [OF p] have m: "le_state (state w) (state w1)" .
  from assms p have "state w' = state w1"
    by (auto simp: backup_entry_def logger_def split: prod.splits sum.splits)
  with m show ?thesis by simp
qed

lemma backup_entry_config:
  assumes "backup_entry env sp v w = (r, w')"
  shows "config w' = config w"
proof -
  obtain r1 w1 where p: "process_source_directory env sp w = (r1, w1)"
    by (cases "process_source_directory env sp w")
  from process_source_directory_config [OF p] have m: "config w1 = config w" .
  from assms p have "config w' = config w1"
    by (auto simp: backup_entry_def logger_def split: prod.splits sum.splits)
  with m show ?thesis by simp
qed

lemma backup_entry_count:
  assumes "backup_entry env sp (p, b) w = (Inr (p', b'), w')"
  shows "(p' = p + 1 \<and> (\<exists>n. process_source_directory env sp w = (Inr n, w')))
         \<or> (p' = p \<and> (\<exists>e w1. process_source_directory env sp w = (Inl e, w1)))"
  using assms by (auto simp: backup_entry_def split: prod.splits sum.splits)

lemma backup_loop_bound:
  "for_each (backup_entry env) sps (p, b) w = (Inr (p', b'), w') \<Longrightarrow> p' \<le> p + length sps"
proof (induction sps arbitrary: p b w)
  case Nil
  then show ?case by simp
next
  case (Cons sp sps)
  obtain r1 w1 where be: "backup_entry env sp (p, b) w = (r1, w1)"
    by (cases "backup_entry env sp (p, b) w")
  with Cons.prems obtain p1 b1 where r1: "r1 = Inr (p1, b1)" by (cases r1) auto
  with be Cons.prems have tail: "for_each (backup_entry env) sps (p1, b1) w1 = (Inr (p', b'), w')"
    by simp
  from backup_entry_count [OF be [unfolded r1]] have "p1 \<le> p + 1" by auto
  with Cons.IH [OF tail] show ?case by simp
qed

lemma backup_loop_requiet:
  assumes "for_each (backup_entry env) sps (p, b) w = (Inr (p + length sps, b'), w')"
      and "le_state (state w') (state w2)"
      and "config w2 = config w"
  shows "\<exists>l. for_each (backup_entry env) sps (p2, b2) w2
             = (Inr (p2 + length sps, b2), w2\<lparr>log_lines := l\<rparr>)"
  using assms
proof (induction sps arbitrary: p b w p2 w2)
  case Nil
  have "for_each (backup_entry env) [] (p2, b2) w2
          = (Inr (p2 + length ([]::json list), b2), w2\<lparr>log_lines := log_lines w2\<rparr>)" by simp
  then show ?case by blast
next
  case (Cons sp sps)
  obtain r1 w1 where be: "backup_entry env sp (p, b) w = (r1, w1)"
    by (cases "backup_entry env sp (p, b) w")
  with Cons.prems(1) obtain p1 b1 where r1: "r1 = Inr (p1, b1)" by (cases r1) auto
  with be Cons.prems(1)
  have tail: "for_each (backup_entry env) sps (p1, b1) w1 = (Inr (p + Suc (length sps), b'), w')"
    by simp
  from backup_loop_bound [OF tail] have "p + 1 \<le> p1" by simp
  with backup_entry_count [OF be [unfolded r1]] obtain n where
    p1: "p1 = p + 1" and ps: "process_source_directory env sp w = (Inr n, w1)" by auto
  have m1: "le_state (state w1) (state w')"
    by (rule for_each_mono [OF _ tail]) (rule backup_entry_mono)
  with Cons.prems(2) have le1: "le_state (state w1) (state w2)" by (blast intro: le_state_trans)
  from process_source_directory_requiet [OF ps le1 Cons.prems(3)] obtain l where
    ps2: "process_source_directory env sp w2 = (Inr 0, w2\<lparr>log_lines := l\<rparr>)" by blast
  then have be2: "backup_entry env sp (p2, b2) w2 = (Inr (p2 + 1, b2), w2\<lparr>log_lines := l\<rparr>)"
    by (simp add: backup_entry_def)
  have c1: "config (w2\<lparr>log_lines := l\<rparr>) = config w1"
    using Cons.prems(3) backup_entry_config [OF be] by simp
  have le2: "le_state (state w') (state (w2\<lparr>log_lines := l\<rparr>))" using Cons.prems(2) by simp
  have tail': "for_each (backup_entry env) sps (p + 1, b1) w1
                 = (Inr (p + 1 + length sps, b'), w')"
    using tail p1 by simp
  from Cons.IH [OF tail' le2 c1, of "p2 + 1"] obtain l' where
    "for_each (backup_entry env) sps (p2 + 1, b2) (w2\<lparr>log_lines := l\<rparr>)
       = (Inr (p2 + 1 + length sps, b2), w2\<lparr>log_lines := l'\<rparr>)" by auto
  with be2 have "for_each (backup_entry env) (sp # sps) (p2, b2) w2
       = (Inr (p2 + length (sp # sps), b2), w2\<lparr>log_lines := l'\<rparr>)" by simp
  then show ?case by blast
qed

lemma load_config_file_ok:
  assumes "load_config_file env w = (Inr (Some c), w')"
  shows "w' = w \<and> (\<forall>w2. load_config_file env w2 = (Inr (Some c), w2))"
proof (cases "open_config env")
  case (Inl e)
  with assms show ?thesis by (cases e) (simp_all add: load_config_file_def)
next
  case (Inr j)
  show ?thesis
  proof (cases j)
    case (JObj kvs)
    show ?thesis
    proof (cases "\<not> is_list (dict_get kvs ''source_directories'')
                   \<or> \<not> truthy (dict_get kvs ''backup_directory'')")
      case True
      with assms Inr JObj show ?thesis by (auto simp: load_config_file_def)
    next
      case False
      then obtain entries where e: "dict_get kvs ''source_directories'' = JArr entries"
        by (cases "dict_get kvs ''source_directories''") auto
      with False assms Inr JObj show ?thesis
        by (auto simp: load_config_file_def split: if_splits)
    qed
  qed (use assms Inr in \<open>simp_all add: load_config_file_def\<close>)
qed

lemma main_success:
  assumes "main env w0 = (Inr (Some True), w1)"
  shows "\<exists>wi. init env w0 = (None, wi) \<and> perform_backup env wi = (Some True, w1)"
proof -
  obtain r wi where i: "init env w0 = (r, wi)" by (cases "init env w0")
  with assms have "r = None" by (cases r) (simp_all add: main_def)
  with assms i show ?thesis by (auto simp: main_def split: prod.splits)
qed

lemma init_success:
  assumes "init env w0 = (None, wi)" "\<not> load_failed wi"
  shows "\<exists>st c l. setup_logger env = None \<and> load_state_file w0 = Inr st
           \<and> (\<forall>w2. load_config_file env w2 = (Inr (Some c), w2))
           \<and> state wi = st \<and> config wi = Some c"
proof -
  let ?w = "w0\<lparr>load_failed := False, backup_failed := False, state := Map.empty, config := None\<rparr>"
  have ls: "load_state_file (logger INFO StartingBackup ?w) = load_state_file w0"
    by (simp add: load_state_file_def logger_def)
  from assms(1) have sl: "setup_logger env = None"
    by (cases "setup_logger env") (simp_all add: init_def Let_def)
  with assms(1) ls obtain st where st: "load_state_file w0 = Inr st"
    by (cases "load_state_file w0") (simp_all add: init_def Let_def)
  let ?w1 = "(logger INFO StartingBackup ?w)\<lparr>state := st\<rparr>"
  obtain rc wc where lc: "load_config_file env ?w1 = (rc, wc)"
    by (cases "load_config_file env ?w1")
  from assms(1) sl ls st lc
  have i: "(case (rc, wc) of (Inl e, w2) \<Rightarrow> (Some e, w2)
            | (Inr None, w2) \<Rightarrow> (None, w2\<lparr>load_failed := True\<rparr>)
            | (Inr (Some c), w2) \<Rightarrow> (None, logger INFO ConfigLoaded (w2\<lparr>config := Some c\<rparr>)))
           = (None, wi)"
    by (simp add: init_def Let_def)
  then obtain c where rc: "rc = Inr (Some c)"
    using assms(2) by (cases rc) (auto split: option.splits)
  from load_config_file_ok [OF lc [unfolded rc]]
  have wc: "wc = ?w1" and all: "\<forall>w2. load_config_file env w2 = (Inr (Some c), w2)" by simp_all
  from i rc wc have "wi = logger INFO ConfigLoaded (?w1\<lparr>config := Some c\<rparr>)" by simp
  then have "state wi = st" "config wi = Some c" by (simp_all add: logger_def)
  with sl st all show ?thesis by blast
qed

lemma init_again:
  assumes "setup_logger env = None" "load_state_file w1 = Inr st"
      and "\<forall>w2. load_config_file env w2 = (Inr (Some c), w2)"
  shows "\<exists>l. init env w1 = (None, w1\<lparr>load_failed := False, backup_failed := False,
                                        state := st, config := Some c, log_lines := l\<rparr>)"
proof -
  let ?w = "w1\<lparr>load_failed := False, backup_failed := False, state := Map.empty, config := None\<rparr>"
  have ls: "load_state_file (logger INFO StartingBackup ?w) = Inr st"
    using assms(2) by (simp add: load_state_file_def logger_def)
  have "init env w1 = (None, logger INFO ConfigLoaded
          (((logger INFO StartingBackup ?w)\<lparr>state := st\<rparr>)\<lparr>config := Some c\<rparr>))"
    using assms(1,3) ls by (simp add: init_def Let_def)
  then show ?thesis by (auto simp: logger_def)
qed

lemma perform_success:
  assumes "perform_backup env wi = (Some True, w1)"
  shows "\<not> load_failed wi \<and>
         (\<exists>c sd sps fp fb wL.
            config wi = Some c \<and> subscript c ''source_directories'' = Inr sd
            \<and> iterate sd = Inr sps
            \<and> for_each (backup_entry env) sps (0, 0) wi = (Inr (fp, fb), wL)
            \<and> 0 < fp \<and> write_state env (state wL) = None
            \<and> w1 = logger INFO (ProcessComplete fb fp) (wL\<lparr>state_file := Inr (state wL)\<rparr>))"
proof -
  from assms have lf: "\<not> load_failed wi" by (auto simp: perform_backup_def)
  obtain rb wb where bb: "backup_body env wi = (rb, wb)" by (cases "backup_body env wi")
  with assms lf have rb: "rb = Inr True" and wb: "wb = w1"
    by (cases rb; simp add: perform_backup_def)+
  from bb rb obtain c where c: "config wi = Some c"
    by (cases "config wi") (simp_all add: backup_body_def)
  from bb rb c obtain sd where sd: "subscript c ''source_directories'' = Inr sd"
    by (cases "subscript c ''source_directories''") (simp_all add: backup_body_def)
  from bb rb c sd obtain sps where sps: "iterate sd = Inr sps"
    by (cases "iterate sd") (simp_all add: backup_body_def)
  obtain rl wL where lp: "for_each (backup_entry env) sps (0, 0) wi = (rl, wL)"
    by (cases "for_each (backup_entry env) sps (0, 0) wi")
  from bb rb c sd sps lp obtain fp fb where rl: "rl = Inr (fp, fb)"
    by (cases rl) (auto simp: backup_body_def)
  from bb rb wb c sd sps lp rl
  have fin: "(if 0 < fp then
               (case save_state_file env wL of
                  (Some e, w2) \<Rightarrow> (Inl e, w2)
                | (None, w2) \<Rightarrow> (Inr True, logger INFO (ProcessComplete fb fp) w2))
             else (Inr False, wL)) = (Inr True, w1)"
    by (simp add: backup_body_def)
  then have fp: "0 < fp" by (cases "0 < fp") simp_all
  from fin fp have ws: "write_state env (state wL) = None"
    by (cases "write_state env (state wL)") (auto simp: save_state_file_def)
  with fin fp have "w1 = logger INFO (ProcessComplete fb fp) (wL\<lparr>state_file := Inr (state wL)\<rparr>)"
    by (simp add: save_state_file_def)
  with lf c sd sps lp rl fp ws show ?thesis by blast
qed

lemma perform_quiet:
  assumes lf: "\<not> load_failed wi" and c: "config wi = Some c"
      and sd: "subscript c ''source_directories'' = Inr sd" and sps: "iterate sd = Inr sps"
      and lp: "for_each (backup_entry env) sps (0, 0) wi
                 = (Inr (length sps, 0), wi\<lparr>log_lines := l\<rparr>)"
      and pos: "0 < length sps" and ws: "write_state env (state wi) = None"
  shows "perform_backup env wi =
           (Some True, logger INFO (ProcessComplete 0 (length sps))
                         (wi\<lparr>log_lines := l, state_file := Inr (state wi)\<rparr>))"
  using assms
  by (simp add: perform_backup_def backup_body_def save_state_file_def)

lemma backup_loop_config:
  assumes "for_each (backup_entry env) sps v w = (r, w')"
  shows "config w' = config w"
  by (rule for_each_world_inv [where P = "\<lambda>w1. config w1 = config w", OF _ _ assms])
     (auto dest: backup_entry_config)

text \<open>
  C5 as the code has it. The first run reported success and its last log line says
  that all the configured source entries were processed (none raised). Then a second
  run of the program in the world the first one left, with the same files, the same
  modification times and the same answers of the system calls, reports success, makes
  no copy and no directory, and writes the state file with the mapping it already
  held.
\<close>

theorem second_pass_idempotent:
  assumes run1: "main env w0 = (Inr (Some True), w1)"
      and cf: "config w1 = Some c"
      and sd: "subscript c ''source_directories'' = Inr sd"
      and it: "iterate sd = Inr sps"
      and all: "last (log_lines w1) = (INFO, ProcessComplete n (length sps))"
  shows "fst (main env w1) = Inr (Some True)
       \<and> copies (snd (main env w1)) = copies w1
       \<and> dirs_made (snd (main env w1)) = dirs_made w1
       \<and> state_file w1 = Inr (state w1)
       \<and> state_file (snd (main env w1)) = state_file w1
       \<and> state (snd (main env w1)) = state w1"
proof -
  from main_success [OF run1] obtain wi where
    i: "init env w0 = (None, wi)" and pb: "perform_backup env wi = (Some True, w1)" by blast
  from perform_success [OF pb] obtain c1 sd1 sps1 fp fb wL where
    lf: "\<not> load_failed wi" and c1: "config wi = Some c1"
    and sd1: "subscript c1 ''source_directories'' = Inr sd1" and it1: "iterate sd1 = Inr sps1"
    and lp: "for_each (backup_entry env) sps1 (0, 0) wi = (Inr (fp, fb), wL)"
    and fp: "0 < fp" and ws: "write_state env (state wL) = None"
    and w1: "w1 = logger INFO (ProcessComplete fb fp) (wL\<lparr>state_file := Inr (state wL)\<rparr>)"
    by blast
  from backup_loop_config [OF lp] c1 have cL: "config wL = Some c1" by simp
  with w1 cf have "c1 = c" by (simp add: logger_def)
  with sd1 sd it1 it have same: "c1 = c" "sd1 = sd" "sps1 = sps" by simp_all
  from w1 all have "fp = length sps" by (simp add: logger_def)
  with lp same have lp': "for_each (backup_entry env) sps (0, 0) wi
                            = (Inr (0 + length sps, fb), wL)" by simp
  from fp \<open>fp = length sps\<close> have pos: "0 < length sps" by simp
  from w1 have st1: "state w1 = state wL" and sf1: "state_file w1 = Inr (state wL)"
    by (simp_all add: logger_def)
  from init_success [OF i lf] c1 same obtain st0 where
    sl: "setup_logger env = None"
    and lc: "\<forall>w2. load_config_file env w2 = (Inr (Some c), w2)"
    by auto
  have ls: "load_state_file w1 = Inr (state wL)" using sf1 by (simp add: load_state_file_def)
  from init_again [OF sl ls lc] obtain l where
    i2: "init env w1 = (None, w1\<lparr>load_failed := False, backup_failed := False,
                                  state := state wL, config := Some c, log_lines := l\<rparr>)"
    by blast
  let ?wi2 = "w1\<lparr>load_failed := False, backup_failed := False,
                 state := state wL, config := Some c, log_lines := l\<rparr>"
  have le: "le_state (state wL) (state ?wi2)" by (simp add: le_state_refl)
  have cf2: "config ?wi2 = config wi" using c1 same by simp
  from backup_loop_requiet [OF lp' le cf2, of 0 0] obtain l' where
    lp2: "for_each (backup_entry env) sps (0, 0) ?wi2
            = (Inr (length sps, 0), ?wi2\<lparr>log_lines := l'\<rparr>)" by auto
  have pb2: "perform_backup env ?wi2 =
           (Some True, logger INFO (ProcessComplete 0 (length sps))
                         (?wi2\<lparr>log_lines := l', state_file := Inr (state ?wi2)\<rparr>))"
    by (rule perform_quiet [OF _ _ sd it lp2 pos]) (simp_all add: ws)
  have m2: "main env w1 =
           (Inr (Some True), logger INFO (ProcessComplete 0 (length sps))
                         (?wi2\<lparr>log_lines := l', state_file := Inr (state ?wi2)\<rparr>))"
    by (simp add: main_def i2 pb2)
  show ?thesis
    by (simp add: m2 logger_def st1 sf1)
qed

theorem second_pass_idempotent_witness:
  "main env_ok world0 = (Inr (Some True), world_first_run)
   \<and> config world_first_run = Some config_one
   \<and> subscript config_one ''source_directories'' = Inr (JArr [entry_ds])
   \<and> iterate (JArr [entry_ds]) = Inr [entry_ds]
   \<and> last (log_lines world_first_run) = (INFO, ProcessComplete 2 (length [entry_ds]))
   \<and> copies world_first_run
       = [(''S/1/A.sl2'', ''B/DS/2024_01_01__120000''),
          (''S/2/B.sl2'', ''B/DS/2024_01_01__120000/2024_01_01__120001'')]
   \<and> fst (main env_ok world_first_run) = Inr (Some True)
   \<and> copies (snd (main env_ok world_first_run)) = copies world_first_run
   \<and> state_file (snd (main env_ok world_first_run)) = state_file world_first_run"
proof -
  have f: "fst (main env_ok world0) = Inr (Some True)" by code_simp
  have r: "main env_ok world0 = (Inr (Some True), world_first_run)"
    unfolding world_first_run_def using f by (simp add: prod_eq_iff)
  have c: "config world_first_run = Some config_one" by code_simp
  have s: "subscript config_one ''source_directories'' = Inr (JArr [entry_ds])" by code_simp
  have i: "iterate (JArr [entry_ds]) = Inr [entry_ds]" by simp
  have l: "last (log_lines world_first_run) = (INFO, ProcessComplete 2 (length [entry_ds]))"
    by code_simp
  have k: "copies world_first_run
       = [(''S/1/A.sl2'', ''B/DS/2024_01_01__120000''),
          (''S/2/B.sl2'', ''B/DS/2024_01_01__120000/2024_01_01__120001'')]" by code_simp
  note t = second_pass_idempotent [OF r c s i l]
  from r c s i l k t show ?thesis by (intro conjI) simp_all
qed

text \<open>
  C5 as stated fails when the first run did not persist the state. With \<open>B.sl2\<close>
  locked, the only entry raises after \<open>A.sl2\<close> was copied, so the first run reports
  failure and writes no state file; the second run, with no file changed, copies
  \<open>A.sl2\<close> again.
\<close>

theorem second_pass_copies_again:
  "fst (main env_copy_fails world0) = Inr (Some False)
   \<and> copies world_first_failed = [(''S/1/A.sl2'', ''B/DS/2024_01_01__120000'')]
   \<and> isl (state_file world_first_failed)
   \<and> copies (snd (main env_copy_fails world_first_failed))
       = [(''S/1/A.sl2'', ''B/DS/2024_01_01__120000''),
          (''S/1/A.sl2'', ''B/DS/2024_01_01__120001'')]"
  by code_simp

section \<open>Change detection\<close>

lemma visit_Unlistable: "visit env bn (Unlistable e) v w = (Inl e, w)"
  by (simp add: visit_def)

lemma visit_Save_file: "visit env bn (Save_file dp f) v w = process_file env bn dp f v w"
  by (simp add: visit_def)

lemma for_each_append:
  "for_each body (xs @ ys) v w =
     (case for_each body xs v w of
        (Inl e, w1) \<Rightarrow> (Inl e, w1)
      | (Inr v1, w1) \<Rightarrow> for_each body ys v1 w1)"
  by (induction xs arbitrary: v w) (auto split: prod.splits sum.splits)

lemma for_each_concat:
  assumes "\<And>x v w. x \<in> set xs \<Longrightarrow> outer x v w = for_each inner (g x) v w"
  shows "for_each outer xs v w = for_each inner (concat (map g xs)) v w"
  using assms
proof (induction xs arbitrary: v w)
  case Nil
  then show ?case by simp
next
  case (Cons x xs)
  have o: "outer x v w = for_each inner (g x) v w" by (rule Cons.prems) simp
  have t: "for_each outer xs v1 w1 = for_each inner (concat (map g xs)) v1 w1" for v1 w1
    by (rule Cons.IH) (simp add: Cons.prems)
  show ?case
    by (simp add: for_each_append o t split: prod.splits sum.splits)
qed

lemma files_as_items:
  "for_each (process_file env bn dp) files v w
     = for_each (visit env bn) (map (Save_file dp) (filter (\<lambda>f. endswith f ''.sl2'') files)) v w"
proof (induction files arbitrary: v w)
  case Nil
  then show ?case by simp
next
  case (Cons f files)
  show ?case
  proof (cases "endswith f ''.sl2''")
    case True
    then show ?thesis by (simp add: visit_Save_file Cons.IH split: prod.splits sum.splits)
  next
    case False
    then show ?thesis by (simp add: process_file_other Cons.IH)
  qed
qed

lemma process_dir_as_items:
  "process_dir env bn rd d v w = for_each (visit env bn) (found_in_dir env rd d) v w"
  by (simp add: process_dir_def found_in_dir_def files_as_items visit_Unlistable split: sum.splits)

lemma process_root_as_items:
  "process_root env bn (rd, dirs, files) v w
     = for_each (visit env bn) (concat (map (found_in_dir env rd) dirs)) v w"
  unfolding process_root_def prod.case
  by (rule for_each_concat) (rule process_dir_as_items)

lemma walk_as_items:
  "for_each (process_root env bn) (os_walk env path) v w
     = for_each (visit env bn) (found env path) v w"
  unfolding found_def
  by (rule for_each_concat) (auto simp: process_root_as_items)

lemma sl2_items_found_in_dir: "sl2_items (found_in_dir env rd d)"
  by (auto simp: sl2_items_def found_in_dir_def list_all_iff split: sum.splits)

lemma sl2_items_found: "sl2_items (found env path)"
  using sl2_items_found_in_dir
  by (fastforce simp: sl2_items_def found_def list_all_iff)

lemma process_file_result:
  assumes "endswith f ''.sl2''" "os_getmtime env (os_path_join env dp f) = Inr m"
      and "case state w f of None \<Rightarrow> True | Some stored \<Rightarrow> stored < m"
  shows "fst (process_file env bn dp f (n, bp) w) =
           (case os_makedirs env bp of
              Some e \<Rightarrow> Inl e
            | None \<Rightarrow>
               (case os_makedirs env (os_path_join env bp (datetime_now env (ticks w))) of
                  Some e \<Rightarrow> Inl e
                | None \<Rightarrow>
                   (case shutil_copy2 env (os_path_join env dp f)
                           (os_path_join env bp (datetime_now env (ticks w))) of
                      Some e \<Rightarrow> Inl e
                    | None \<Rightarrow> Inr (n + 1, os_path_join env bp (datetime_now env (ticks w))))))"
  using assms by (simp add: process_file_def Let_def logger_def split: option.splits)

lemma visit_detect:
  assumes "sl2_items items"
      and "for_each (visit env bn) items (n, bp) w = (r, w')"
      and "detect env items (state w) bp (ticks w) = (cs, st, x)"
  shows "copies w' = copies w @ cs \<and> state w' = st
         \<and> (case x of None \<Rightarrow> (\<exists>bp1. r = Inr (n + length cs, bp1)) | Some e \<Rightarrow> r = Inl e)"
  using assms
proof (induction items arbitrary: n bp w cs st x)
  case Nil
  then show ?case by auto
next
  case (Cons it items)
  show ?case
  proof (cases it)
    case (Unlistable e)
    with Cons.prems show ?thesis by (auto simp: visit_Unlistable)
  next
    case (Save_file dp f)
    with Cons.prems(1) have sl2: "endswith f ''.sl2''" and rest: "sl2_items items"
      by (simp_all add: sl2_items_def)
    let ?src = "os_path_join env dp f"
    let ?dest = "os_path_join env bp (datetime_now env (ticks w))"
    show ?thesis
    proof (cases "os_getmtime env ?src")
      case (Inl e)
      with Cons.prems(2,3) Save_file sl2 show ?thesis
        by (auto simp: visit_Save_file process_file_mtime_raises)
    next
      case (Inr m)
      show ?thesis
      proof (cases "case state w f of None \<Rightarrow> True | Some stored \<Rightarrow> stored < m")
        case False
        then obtain stored where s: "state w f = Some stored" "m \<le> stored"
          by (cases "state w f") (auto simp: not_less)
        from process_file_skip [OF sl2 Inr s]
        have pf: "process_file env bn dp f (n, bp) w = (Inr (n, bp), logger INFO (Skipping f) w)" .
        with Cons.prems(2) Save_file
        have run: "for_each (visit env bn) items (n, bp) (logger INFO (Skipping f) w) = (r, w')"
          by (simp add: visit_Save_file)
        from Cons.prems(3) Save_file Inr False
        have d: "detect env items (state (logger INFO (Skipping f) w)) bp
                   (ticks (logger INFO (Skipping f) w)) = (cs, st, x)"
          by (simp add: logger_def)
        from Cons.IH [OF rest run d] show ?thesis by (simp add: logger_def)
      next
        case True
        then have ch: "state w f = None \<or> (\<exists>stored. state w f = Some stored \<and> stored < m)"
          by (cases "state w f") auto
        obtain r1 w1 where pf: "process_file env bn dp f (n, bp) w = (r1, w1)"
          by (cases "process_file env bn dp f (n, bp) w")
        have raised: ?thesis
          if fe: "fst (process_file env bn dp f (n, bp) w) = Inl e"
            and de: "detect env (it # items) (state w) bp (ticks w) = ([], state w, Some e)"
          for e
        proof -
          from fe pf have r1: "r1 = Inl e" by simp
          from process_file_changed [OF sl2 Inr ch pf] r1
          have c1: "copies w1 = copies w" and s1: "state w1 = state w" by auto
          from Cons.prems(2) Save_file pf r1 have rw: "r = Inl e" "w' = w1"
            by (simp_all add: visit_Save_file)
          from Cons.prems(3) de have "cs = []" "st = state w" "x = Some e" by simp_all
          with rw c1 s1 show ?thesis by simp
        qed
        note res = process_file_result [OF sl2 Inr True, of bn n bp]
        consider (mk1) e where "os_makedirs env bp = Some e"
          | (mk2) e where "os_makedirs env bp = None" "os_makedirs env ?dest = Some e"
          | (cp) e where "os_makedirs env bp = None" "os_makedirs env ?dest = None"
              "shutil_copy2 env ?src ?dest = Some e"
          | (ok) "os_makedirs env bp = None" "os_makedirs env ?dest = None"
              "shutil_copy2 env ?src ?dest = None"
          by (cases "os_makedirs env bp"; cases "os_makedirs env ?dest";
              cases "shutil_copy2 env ?src ?dest") auto
        then show ?thesis
        proof cases
          case mk1
          show ?thesis
            by (rule raised [of e]) (simp_all add: res mk1 Save_file Inr True Let_def)
        next
          case mk2
          show ?thesis
            by (rule raised [of e]) (simp_all add: res mk2 Save_file Inr True Let_def)
        next
          case cp
          show ?thesis
            by (rule raised [of e]) (simp_all add: res cp Save_file Inr True Let_def)
        next
          case ok
          from process_file_changed [OF sl2 Inr ch pf] ok
          have r1: "r1 = Inr (n + 1, ?dest)" and c1: "copies w1 = copies w @ [(?src, ?dest)]"
            and s1: "state w1 = (state w)(f \<mapsto> m)" and t1: "ticks w1 = Suc (ticks w)"
            by auto
          from Cons.prems(2) Save_file pf r1
          have run: "for_each (visit env bn) items (n + 1, ?dest) w1 = (r, w')"
            by (simp add: visit_Save_file)
          obtain cs1 st1 x1 where
            d1: "detect env items (state w1) ?dest (ticks w1) = (cs1, st1, x1)"
            by (cases "detect env items (state w1) ?dest (ticks w1)") auto
          with Cons.prems(3) Save_file Inr True ok s1 t1
          have eq: "cs = (?src, ?dest) # cs1" "st = st1" "x = x1"
            by (simp_all add: Let_def)
          from Cons.IH [OF rest run d1] show ?thesis
            by (auto simp: eq c1 split: option.splits)
        qed
      qed
    qed
  qed
qed

text \<open>
  C1 as the code has it, for one call of the engine on a source entry whose path, name
  and backup directory are strings. The call comes upon the save files \<open>found\<close>: the
  names ending in \<open>.sl2\<close> in the listings of the digit-named subdirectories of the
  walk, in order. Its copies, its state mapping and its result are those of \<open>detect\<close>:
  up to the first listing, time reading, directory creation or copy that raises, a
  file is copied, counted and its state entry updated exactly when its name is no key
  of the state or its modification time is strictly greater than the stored value,
  and a file with an equal or lower time is skipped with no copy, no state update and
  no count increment; the operation that raises ends the call with that exception,
  the file at hand not copied. The returned count is the number of copies, and the
  backup pass adds it to its own count of files backed up.
\<close>

theorem change_detection:
  assumes ep: "entry_paths env source_path w = Inr (path, base_name, base)"
      and run: "process_source_directory env source_path w = (r, w')"
      and det: "detect env (found env path) (state w) base (ticks w) = (cs, st, x)"
  shows "copies w' = copies w @ cs
       \<and> state w' = st
       \<and> r = (case x of None \<Rightarrow> Inr (length cs) | Some e \<Rightarrow> Inl e)
       \<and> (x = None \<longrightarrow>
            (\<forall>p b. backup_entry env source_path (p, b) w = (Inr (p + 1, b + length cs), w')))"
proof -
  obtain r1 w1 where
    f: "for_each (visit env base_name) (found env path) (0, base) w = (r1, w1)"
    by (cases "for_each (visit env base_name) (found env path) (0, base) w")
  from visit_detect [OF sl2_items_found f det]
  have c: "copies w1 = copies w @ cs" and s: "state w1 = st"
    and k: "case x of None \<Rightarrow> (\<exists>bp1. r1 = Inr (0 + length cs, bp1)) | Some e \<Rightarrow> r1 = Inl e"
    by simp_all
  from run ep f have rw: "(r, w') = (case r1 of Inl e \<Rightarrow> (Inl e, w1)
                                     | Inr v \<Rightarrow> (Inr (fst v), w1))"
    by (simp add: process_source_directory_def walk_as_items split: sum.splits prod.splits)
  from rw have w': "w' = w1" by (cases r1) simp_all
  from rw k have r: "r = (case x of None \<Rightarrow> Inr (length cs) | Some e \<Rightarrow> Inl e)"
    by (cases x) auto
  have "backup_entry env source_path (p, b) w = (Inr (p + 1, b + length cs), w')"
    if "x = None" for p b
    using that r run by (simp add: backup_entry_completed)
  with c s r w' show ?thesis by simp
qed

theorem change_detection_witness:
  "entry_paths env_ok entry_ds world_seen = Inr (''S'', ''DS'', ''B/DS'')
   \<and> found env_ok ''S'' = [Save_file ''S/1'' ''A.sl2'', Save_file ''S/2'' ''B.sl2'']
   \<and> state world_seen ''A.sl2'' = Some 10 \<and> os_getmtime env_ok ''S/1/A.sl2'' = Inr 10
   \<and> state world_seen ''B.sl2'' = None \<and> os_getmtime env_ok ''S/2/B.sl2'' = Inr 20
   \<and> fst (detect env_ok (found env_ok ''S'') (state world_seen) ''B/DS'' (ticks world_seen))
       = [(''S/2/B.sl2'', ''B/DS/2024_01_01__120000'')]
   \<and> snd (snd (detect env_ok (found env_ok ''S'') (state world_seen) ''B/DS''
                 (ticks world_seen))) = None
   \<and> copies (snd (process_source_directory env_ok entry_ds world_seen))
       = [(''S/2/B.sl2'', ''B/DS/2024_01_01__120000'')]
   \<and> fst (process_source_directory env_ok entry_ds world_seen) = Inr 1
   \<and> state (snd (process_source_directory env_ok entry_ds world_seen)) ''A.sl2'' = Some 10
   \<and> state (snd (process_source_directory env_ok entry_ds world_seen)) ''B.sl2'' = Some 20"
proof -
  have ep: "entry_paths env_ok entry_ds world_seen = Inr (''S'', ''DS'', ''B/DS'')"
    by code_simp
  have fo: "found env_ok ''S'' = [Save_file ''S/1'' ''A.sl2'', Save_file ''S/2'' ''B.sl2'']"
    by code_simp
  have sa: "state world_seen ''A.sl2'' = Some 10" by code_simp
  have ma: "os_getmtime env_ok ''S/1/A.sl2'' = Inr 10" by code_simp
  have sb: "state world_seen ''B.sl2'' = None" by code_simp
  have mb: "os_getmtime env_ok ''S/2/B.sl2'' = Inr 20" by code_simp
  have c0: "copies world_seen = []" by code_simp
  have d1: "fst (detect env_ok (found env_ok ''S'') (state world_seen) ''B/DS'' (ticks world_seen))
       = [(''S/2/B.sl2'', ''B/DS/2024_01_01__120000'')]" by code_simp
  have d3: "snd (snd (detect env_ok (found env_ok ''S'') (state world_seen) ''B/DS''
                 (ticks world_seen))) = None" by code_simp
  have d2a: "fst (snd (detect env_ok (found env_ok ''S'') (state world_seen) ''B/DS''
                 (ticks world_seen))) ''A.sl2'' = Some 10" by code_simp
  have d2b: "fst (snd (detect env_ok (found env_ok ''S'') (state world_seen) ''B/DS''
                 (ticks world_seen))) ''B.sl2'' = Some 20" by code_simp
  have dd: "detect env_ok (found env_ok ''S'') (state world_seen) ''B/DS'' (ticks world_seen)
        = (fst (detect env_ok (found env_ok ''S'') (state world_seen) ''B/DS'' (ticks world_seen)),
           fst (snd (detect env_ok (found env_ok ''S'') (state world_seen) ''B/DS''
                 (ticks world_seen))),
           snd (snd (detect env_ok (found env_ok ''S'') (state world_seen) ''B/DS''
                 (ticks world_seen))))"
    by simp
  note t = change_detection [OF ep surjective_pairing dd]
  from t have t1: "copies (snd (process_source_directory env_ok entry_ds world_seen))
       = [(''S/2/B.sl2'', ''B/DS/2024_01_01__120000'')]"
    by (simp add: d1 c0)
  from t have t2: "fst (process_source_directory env_ok entry_ds world_seen) = Inr 1"
    by (simp add: d1 d3)
  from t have t3: "state (snd (process_source_directory env_ok entry_ds world_seen)) ''A.sl2''
       = Some 10" by (simp add: d2a)
  from t have t4: "state (snd (process_source_directory env_ok entry_ds world_seen)) ''B.sl2''
       = Some 20" by (simp add: d2b)
  from ep fo sa ma sb mb d1 d3 t1 t2 t3 t4 show ?thesis by (intro conjI)
qed

text \<open>
  C1 as stated fails when a copy raises. \<open>B.sl2\<close> is found in the digit-named
  subdirectory \<open>2\<close> and its name is no key of the state, yet it is not copied: the copy
  raises, the call on the entry ends with that exception and the pass reports
  failure, with \<open>A.sl2\<close> as its only copy.
\<close>

theorem changed_file_not_copied:
  "found env_copy_fails ''S'' = [Save_file ''S/1'' ''A.sl2'', Save_file ''S/2'' ''B.sl2'']
   \<and> isdigit ''2'' \<and> endswith ''B.sl2'' ''.sl2''
   \<and> state world_cfg ''B.sl2'' = None
   \<and> os_getmtime env_copy_fails ''S/2/B.sl2'' = Inr 20
   \<and> fst (process_source_directory env_copy_fails entry_ds world_cfg) = Inl OSError
   \<and> copies (snd (process_source_directory env_copy_fails entry_ds world_cfg))
       = [(''S/1/A.sl2'', ''B/DS/2024_01_01__120000'')]
   \<and> fst (main env_copy_fails world0) = Inr (Some False)
   \<and> copies (snd (main env_copy_fails world0))
       = [(''S/1/A.sl2'', ''B/DS/2024_01_01__120000'')]"
  by code_simp

end
